theory Spec2Isabelle
  imports Main "HOL-Library.Monad_Syntax"
begin

section \<open>JavaScript strings\<close>

text \<open>
  A JavaScript string is a sequence of UTF-16 code units; every index the parser stores
  (\<open>match.index\<close>, \<open>start\<close>, \<open>end\<close>) counts code units.  A line is therefore a list of
  code units.  The calendar emoji U+1F4C5 is the surrogate pair \<open>[0xD83D, 0xDCC5]\<close>.
\<close>

type_synonym jsstring = "nat list"

definition str :: "string \<Rightarrow> jsstring" where
  "str s = map of_char s"

text \<open>The class \<open>\s\<close> of a regular expression; \<open>trim\<close> removes the same code units.\<close>

definition is_ws :: "nat \<Rightarrow> bool" where
  "is_ws c \<longleftrightarrow>
     c = 9 \<or> c = 10 \<or> c = 11 \<or> c = 12 \<or> c = 13 \<or> c = 32 \<or> c = 160 \<or> c = 5760 \<or>
     (8192 \<le> c \<and> c \<le> 8202) \<or> c = 8232 \<or> c = 8233 \<or> c = 8239 \<or> c = 8287 \<or>
     c = 12288 \<or> c = 65279"

text \<open>The class \<open>\d\<close>: the ASCII digits only, also under the \<open>u\<close> flag.\<close>

definition is_digit :: "nat \<Rightarrow> bool" where
  "is_digit c \<longleftrightarrow> 48 \<le> c \<and> c \<le> 57"

definition trimStart :: "jsstring \<Rightarrow> jsstring" where
  "trimStart s = dropWhile is_ws s"

definition trimEnd :: "jsstring \<Rightarrow> jsstring" where
  "trimEnd s = rev (dropWhile is_ws (rev s))"

definition trim :: "jsstring \<Rightarrow> jsstring" where
  "trim s = trimEnd (trimStart s)"

text \<open>\<open>s.substring(a, b)\<close>: the arguments are swapped when \<open>a > b\<close> and clamped to the length.\<close>

definition substring :: "jsstring \<Rightarrow> nat \<Rightarrow> nat \<Rightarrow> jsstring" where
  "substring s a b = take (max a b - min a b) (drop (min a b) s)"

fun startsWith :: "jsstring \<Rightarrow> jsstring \<Rightarrow> bool" where
  "startsWith s [] = True"
| "startsWith [] (p # ps) = False"
| "startsWith (c # cs) (p # ps) = (c = p \<and> startsWith cs ps)"

text \<open>\<open>find_at pat s i\<close> searches the suffix \<open>s\<close>, which begins at index \<open>i\<close> of the line.\<close>

fun find_at :: "jsstring \<Rightarrow> jsstring \<Rightarrow> nat \<Rightarrow> nat option" where
  "find_at pat [] i = None"
| "find_at pat (c # cs) i = (if startsWith (c # cs) pat then Some i else find_at pat cs (Suc i))"

text \<open>\<open>line.indexOf(pat, from)\<close> for a non-empty pattern; \<open>None\<close> is the result \<open>-1\<close>.\<close>

definition indexOf :: "jsstring \<Rightarrow> jsstring \<Rightarrow> nat \<Rightarrow> nat option" where
  "indexOf line pat from = find_at pat (drop from line) from"

text \<open>\<open>s.includes(pat)\<close> for a non-empty pattern.\<close>

definition string_includes :: "jsstring \<Rightarrow> jsstring \<Rightarrow> bool" where
  "string_includes s pat \<longleftrightarrow> indexOf s pat 0 \<noteq> None"

text \<open>
  \<open>toLowerCase\<close>.  The ASCII letters are mapped as usual.  Of the other code units the
  Kelvin sign U+212A is the only one whose lower case is an ASCII letter, and U+0130
  becomes \<open>i\<close> followed by U+0307; every remaining non-ASCII unit stays outside ASCII and
  is left as it is, which cannot change a lookup in the ASCII-only alias table.
\<close>

definition toLowerCase_unit :: "nat \<Rightarrow> jsstring" where
  "toLowerCase_unit c =
     (if 65 \<le> c \<and> c \<le> 90 then [c + 32]
      else if c = 8490 then [107]
      else if c = 304 then [105, 775]
      else [c])"

definition toLowerCase :: "jsstring \<Rightarrow> jsstring" where
  "toLowerCase s = concat (map toLowerCase_unit s)"

text \<open>\<open>Number\<close> on a string of decimal digits.\<close>

definition Number :: "jsstring \<Rightarrow> nat" where
  "Number s = foldl (\<lambda>a c. 10 * a + (c - 48)) 0 s"

section \<open>The calendar library\<close>

text \<open>
  Modelled from the spec: the date values are objects of the external library
  \<open>moment\<close>, which is not part of the repository.  The spec calls them
  calendar-date-with-optional-time values "constructed from a strict YYYY-MM-DD literal
  (optionally HH:mm)", for which "invalid strings are discarded".  A moment is modelled by
  its local calendar fields in the proleptic Gregorian calendar, on a local time line
  without offset changes.  The setters carry into the following days as the underlying
  \<open>Date.setHours\<close> and \<open>Date.setMinutes\<close> do.
\<close>

record moment =
  year :: int
  month :: nat
  day :: nat
  hour :: nat
  minute :: nat
  second :: nat
  millisecond :: nat

definition isLeapYear :: "int \<Rightarrow> bool" where
  "isLeapYear y \<longleftrightarrow> (y mod 4 = 0 \<and> y mod 100 \<noteq> 0) \<or> y mod 400 = 0"

definition daysInMonth :: "int \<Rightarrow> nat \<Rightarrow> nat" where
  "daysInMonth y m =
     (if m = 2 then (if isLeapYear y then 29 else 28)
      else if m = 4 \<or> m = 6 \<or> m = 9 \<or> m = 11 then 30
      else 31)"

definition valid_moment :: "moment \<Rightarrow> bool" where
  "valid_moment m \<longleftrightarrow>
     1 \<le> month m \<and> month m \<le> 12 \<and> 1 \<le> day m \<and> day m \<le> daysInMonth (year m) (month m) \<and>
     hour m < 24 \<and> minute m < 60 \<and> second m < 60 \<and> millisecond m < 1000"

definition next_day :: "moment \<Rightarrow> moment" where
  "next_day m =
     (if day m < daysInMonth (year m) (month m) then m\<lparr>day := day m + 1\<rparr>
      else if month m < 12 then m\<lparr>month := month m + 1, day := 1\<rparr>
      else m\<lparr>year := year m + 1, month := 1, day := 1\<rparr>)"

definition prev_day :: "moment \<Rightarrow> moment" where
  "prev_day m =
     (if 1 < day m then m\<lparr>day := day m - 1\<rparr>
      else if 1 < month m then m\<lparr>month := month m - 1, day := daysInMonth (year m) (month m - 1)\<rparr>
      else m\<lparr>year := year m - 1, month := 12, day := 31\<rparr>)"

definition add_days :: "int \<Rightarrow> moment \<Rightarrow> moment" where
  "add_days n m = (if 0 \<le> n then (next_day ^^ nat n) m else (prev_day ^^ nat (- n)) m)"

definition ms_of_day :: "moment \<Rightarrow> int" where
  "ms_of_day m =
     int (hour m) * 3600000 + int (minute m) * 60000 + int (second m) * 1000 + int (millisecond m)"

text \<open>
  \<open>at_day_ms m t\<close> is the instant \<open>t\<close> milliseconds after the midnight that begins the day
  of \<open>m\<close>; \<open>t\<close> may lie outside the day.
\<close>

definition at_day_ms :: "moment \<Rightarrow> int \<Rightarrow> moment" where
  "at_day_ms m t =
     (let r = nat (t mod 86400000) in
      (add_days (t div 86400000) m)
        \<lparr>hour := r div 3600000, minute := (r div 60000) mod 60,
         second := (r div 1000) mod 60, millisecond := r mod 1000\<rparr>)"

definition moment_hour :: "nat \<Rightarrow> moment \<Rightarrow> moment" where
  "moment_hour h m = at_day_ms m (ms_of_day (m\<lparr>hour := h\<rparr>))"

definition moment_minute :: "nat \<Rightarrow> moment \<Rightarrow> moment" where
  "moment_minute mi m = at_day_ms m (ms_of_day (m\<lparr>minute := mi\<rparr>))"

definition moment_second :: "nat \<Rightarrow> moment \<Rightarrow> moment" where
  "moment_second s m = at_day_ms m (ms_of_day (m\<lparr>second := s\<rparr>))"

definition add_milliseconds :: "int \<Rightarrow> moment \<Rightarrow> moment" where
  "add_milliseconds d m = at_day_ms m (ms_of_day m + d)"

definition add_minutes :: "int \<Rightarrow> moment \<Rightarrow> moment" where
  "add_minutes n m = add_milliseconds (n * 60000) m"

definition subtract_day :: "moment \<Rightarrow> moment" where
  "subtract_day m = add_days (- 1) m"

text \<open>The number of days from 0000-01-01 to the first day of year \<open>y\<close>.\<close>

definition days_before_year :: "int \<Rightarrow> int" where
  "days_before_year y = 365 * y + (y + 3) div 4 - (y + 99) div 100 + (y + 399) div 400"

definition days_before_month :: "int \<Rightarrow> nat \<Rightarrow> nat" where
  "days_before_month y m = sum_list (map (daysInMonth y) [1..<m])"

definition day_number :: "moment \<Rightarrow> int" where
  "day_number m =
     days_before_year (year m) + int (days_before_month (year m) (month m)) + int (day m) - 1"

text \<open>
  The position of a moment on the time line in milliseconds, counted from 0000-01-01
  00:00 local time.  It differs from \<open>valueOf\<close> by a constant, which no difference sees.
\<close>

definition time_ms :: "moment \<Rightarrow> int" where
  "time_ms m = day_number m * 86400000 + ms_of_day m"

text \<open>\<open>a.diff(b)\<close>, in milliseconds.\<close>

definition diff :: "moment \<Rightarrow> moment \<Rightarrow> int" where
  "diff a b = time_ms a - time_ms b"

text \<open>\<open>a.isAfter(b, "day")\<close> and \<open>a.isSame(b, "day")\<close> compare the calendar days.\<close>

definition isAfter_day :: "moment \<Rightarrow> moment \<Rightarrow> bool" where
  "isAfter_day a b \<longleftrightarrow> day_number b < day_number a"

definition isSame_day :: "moment \<Rightarrow> moment \<Rightarrow> bool" where
  "isSame_day a b \<longleftrightarrow> year a = year b \<and> month a = month b \<and> day a = day b"

definition isSameOrBefore :: "moment \<Rightarrow> moment \<Rightarrow> bool" where
  "isSameOrBefore a b \<longleftrightarrow> time_ms a \<le> time_ms b"

text \<open>
  \<open>moment(s)\<close> for a string \<open>s\<close> that matched \<open>\d{4}-\d{2}-\d{2}\<close>; \<open>None\<close> is a moment
  whose \<open>isValid()\<close> is false.
\<close>

definition moment_parse :: "jsstring \<Rightarrow> moment option" where
  "moment_parse s =
     (let y = Number (take 4 s); mo = Number (take 2 (drop 5 s)); d = Number (take 2 (drop 8 s))
      in if 1 \<le> mo \<and> mo \<le> 12 \<and> 1 \<le> d \<and> d \<le> daysInMonth (int y) mo
         then Some \<lparr>year = int y, month = mo, day = d, hour = 0, minute = 0, second = 0,
                    millisecond = 0\<rparr>
         else None)"

fun nat_digits :: "nat \<Rightarrow> jsstring" where
  "nat_digits n = (if n < 10 then [48 + n] else nat_digits (n div 10) @ [48 + n mod 10])"

declare nat_digits.simps [simp del]

text \<open>The library's \<open>zeroFill\<close>: pad with zeros to a minimal width, sign in front.\<close>

definition zeroFill :: "int \<Rightarrow> nat \<Rightarrow> jsstring" where
  "zeroFill n w =
     (let ds = nat_digits (nat \<bar>n\<bar>)
      in (if 0 \<le> n then [] else [45]) @ replicate (w - length ds) 48 @ ds)"

text \<open>\<open>format("YYYY-MM-DD")\<close>, \<open>format("HH:mm")\<close> and \<open>format("YYYY-MM-DD HH:mm")\<close>.\<close>

definition format_date :: "moment \<Rightarrow> jsstring" where
  "format_date m =
     zeroFill (year m) 4 @ [45] @ zeroFill (int (month m)) 2 @ [45] @ zeroFill (int (day m)) 2"

definition format_time :: "moment \<Rightarrow> jsstring" where
  "format_time m = zeroFill (int (hour m)) 2 @ [58] @ zeroFill (int (minute m)) 2"

definition format_date_time :: "moment \<Rightarrow> jsstring" where
  "format_date_time m = format_date m @ [32] @ format_time m"

section \<open>The date parser\<close>

text \<open>
  The values that the property \<open>type\<close> of a field holds at run time.  The first six are the
  members of the enumeration \<open>DateFieldType\<close>.  The alias table of the Dataview grammar is
  a plain object, so a lookup in it also finds what the object inherits from
  \<open>Object.prototype\<close>; the keys are lower case, which leaves two inherited properties: the
  function \<open>Object\<close> under the key \<open>constructor\<close>, and the object \<open>Object.prototype\<close>
  under the key \<open>__proto__\<close>.  Both are truthy, and \<open>extractDataviewDates\<close> stores them
  as the type of a field.
\<close>

datatype DateFieldType = Due | Start | Scheduled | Created | Done | Cancelled
  | Object_constructor | Object_prototype

text \<open>
  The string that a template literal makes of a type: the string value of a member of the
  enumeration, and for the two inherited values the text that the engine of the host
  application gives.
\<close>

fun enum_value :: "DateFieldType \<Rightarrow> jsstring" where
  "enum_value Due = str ''due''"
| "enum_value Start = str ''start''"
| "enum_value Scheduled = str ''scheduled''"
| "enum_value Created = str ''created''"
| "enum_value Done = str ''completed''"
| "enum_value Cancelled = str ''cancelled''"
| "enum_value Object_constructor = str ''function Object() { [native code] }''"
| "enum_value Object_prototype = str ''[object Object]''"

datatype DateFormatType = Tasks | Dataview | Simple | Kanban

datatype FieldFormat = F_tasks | F_dataview_bracket | F_dataview_paren | F_simple | F_kanban

text \<open>\<open>hasTime\<close> is an optional property: \<open>None\<close> is \<open>undefined\<close>.\<close>

record ParsedDateField =
  type :: DateFieldType
  date :: moment
  raw :: jsstring
  start :: nat
  end' :: nat
  format :: FieldFormat
  hasTime :: "bool option"

text \<open>
  \<open>DATE_SYMBOLS[type]\<close>; \<open>None\<close> is \<open>undefined\<close>.  The keys of the table are the string
  values of the enumeration, and the strings of the two inherited values are no keys of it.
\<close>

fun DATE_SYMBOLS :: "DateFieldType \<Rightarrow> jsstring list option" where
  "DATE_SYMBOLS Due = Some [[55357, 56517], [55357, 56518], [55357, 56787]]"
| "DATE_SYMBOLS Start = Some [[55357, 57067]]"
| "DATE_SYMBOLS Scheduled = Some [[9203], [8987]]"
| "DATE_SYMBOLS Created = Some [[10133]]"
| "DATE_SYMBOLS Done = Some [[9989]]"
| "DATE_SYMBOLS Cancelled = Some [[10060]]"
| "DATE_SYMBOLS Object_constructor = None"
| "DATE_SYMBOLS Object_prototype = None"

text \<open>
  The regular expressions of the module, as data.  \<open>EMOJI_DATE syms\<close> is
  \<open>/[syms]\uFE0F?\s*(\d{4}-\d{2}-\d{2})(?:\s+(\d{1,2}:\d{2}))?/gu\<close>.
\<close>

datatype regex = EMOJI_DATE "jsstring list" | SIMPLE_DATE_REGEX | KANBAN_DATE_REGEX | KANBAN_TIME_REGEX

definition EMOJI_DATE_PATTERNS :: "(DateFieldType \<times> regex) list" where
  "EMOJI_DATE_PATTERNS =
     [(Due, EMOJI_DATE [[55357, 56517], [55357, 56518], [55357, 56787]]),
      (Start, EMOJI_DATE [[55357, 57067]]),
      (Scheduled, EMOJI_DATE [[9203], [8987]]),
      (Created, EMOJI_DATE [[10133]]),
      (Done, EMOJI_DATE [[9989]]),
      (Cancelled, EMOJI_DATE [[10060]])]"

definition DATAVIEW_WRAPPERS :: "(nat \<times> nat) list" where
  "DATAVIEW_WRAPPERS = [(91, 93), (40, 41)]"

text \<open>
  \<open>DATAVIEW_KEY_ALIASES[key]\<close> for a key in lower case; \<open>None\<close> is \<open>undefined\<close>.  The last
  two entries are the properties that the table inherits.
\<close>

definition DATAVIEW_KEY_ALIASES :: "jsstring \<Rightarrow> DateFieldType option" where
  "DATAVIEW_KEY_ALIASES = map_of
     [(str ''due'', Due), (str ''due date'', Due), (str ''duedate'', Due),
      (str ''start'', Start), (str ''start date'', Start), (str ''startdate'', Start),
      (str ''scheduled'', Scheduled), (str ''scheduled date'', Scheduled),
      (str ''scheduleddate'', Scheduled),
      (str ''created'', Created), (str ''created date'', Created), (str ''createddate'', Created),
      (str ''done'', Done), (str ''done date'', Done), (str ''donedate'', Done),
      (str ''completed'', Done), (str ''completion date'', Done), (str ''completion'', Done),
      (str ''cancelled'', Cancelled), (str ''canceled'', Cancelled),
      (str ''cancelled date'', Cancelled), (str ''canceled date'', Cancelled),
      (str ''constructor'', Object_constructor), (str ''__proto__'', Object_prototype)]"

subsection \<open>Matching at one position\<close>

text \<open>\<open>\d{4}-\d{2}-\d{2}\<close> at the head of \<open>s\<close>; the result is the matched text.\<close>

definition match_iso_date :: "jsstring \<Rightarrow> jsstring option" where
  "match_iso_date s =
     (if 10 \<le> length s \<and> is_digit (s ! 0) \<and> is_digit (s ! 1) \<and> is_digit (s ! 2) \<and>
         is_digit (s ! 3) \<and> s ! 4 = 45 \<and> is_digit (s ! 5) \<and> is_digit (s ! 6) \<and> s ! 7 = 45 \<and>
         is_digit (s ! 8) \<and> is_digit (s ! 9)
      then Some (take 10 s) else None)"

text \<open>
  \<open>\d{1,2}:\d{2}\<close> at the head of \<open>s\<close>.  The greedy two-digit reading is tried first; when
  it fails the second unit is a digit, so the one-digit reading fails on the colon.
\<close>

definition match_time :: "jsstring \<Rightarrow> jsstring option" where
  "match_time s =
     (if 5 \<le> length s \<and> is_digit (s ! 0) \<and> is_digit (s ! 1) \<and> s ! 2 = 58 \<and>
         is_digit (s ! 3) \<and> is_digit (s ! 4)
      then Some (take 5 s)
      else if 4 \<le> length s \<and> is_digit (s ! 0) \<and> s ! 1 = 58 \<and> is_digit (s ! 2) \<and>
         is_digit (s ! 3)
      then Some (take 4 s)
      else None)"

text \<open>
  One of the symbols at the head of \<open>s\<close>.  Under the \<open>u\<close> flag a class matches one code
  point, which is two code units for the symbols beyond U+FFFF.
\<close>

definition match_symbol :: "jsstring list \<Rightarrow> jsstring \<Rightarrow> nat option" where
  "match_symbol syms s =
     (case filter (startsWith s) syms of [] \<Rightarrow> None | p # _ \<Rightarrow> Some (length p))"

text \<open>
  \<open>\s*(\d{4}-\d{2}-\d{2})\<close> at the head of \<open>s\<close>: the length of the match and the date
  text.  The white space is taken greedily; with fewer units the next unit would be white
  space, not a digit.
\<close>

definition match_ws_date :: "jsstring \<Rightarrow> (nat \<times> jsstring) option" where
  "match_ws_date s =
     (let n = length (takeWhile is_ws s)
      in case match_iso_date (drop n s) of
           None \<Rightarrow> None
         | Some d \<Rightarrow> Some (n + 10, d))"

text \<open>
  \<open>\s+(\d{1,2}:\d{2})\<close> at the head of \<open>s\<close>, the body of the optional group: the length
  of the match and the time text.
\<close>

definition match_ws_time :: "jsstring \<Rightarrow> (nat \<times> jsstring) option" where
  "match_ws_time s =
     (let n = length (takeWhile is_ws s)
      in if 1 \<le> n then
           (case match_time (drop n s) of
              None \<Rightarrow> None
            | Some t \<Rightarrow> Some (n + length t, t))
         else None)"

text \<open>
  A match of a regular expression at the head of \<open>s\<close>: the length of the match and its
  two capture groups (the second is \<open>None\<close> when it did not take part).  The optional
  variation selector is taken when it is there: it is neither white space nor a digit, so
  the match cannot go on without it.
\<close>

fun regex_match_at :: "regex \<Rightarrow> jsstring \<Rightarrow> (nat \<times> jsstring \<times> jsstring option) option" where
  "regex_match_at (EMOJI_DATE syms) s =
     (case match_symbol syms s of
        None \<Rightarrow> None
      | Some n1 \<Rightarrow>
          let n2 = (if startsWith (drop n1 s) [65039] then 1 else 0)
          in (case match_ws_date (drop (n1 + n2) s) of
                None \<Rightarrow> None
              | Some (n3, d) \<Rightarrow>
                  (case match_ws_time (drop (n1 + n2 + n3) s) of
                     None \<Rightarrow> Some (n1 + n2 + n3, d, None)
                   | Some (n4, t) \<Rightarrow> Some (n1 + n2 + n3 + n4, d, Some t))))"
| "regex_match_at SIMPLE_DATE_REGEX s =
     (if startsWith s [64] then
        (case match_ws_date (drop 1 s) of
           None \<Rightarrow> None
         | Some (n, d) \<Rightarrow> Some (1 + n, d, None))
      else None)"
| "regex_match_at KANBAN_DATE_REGEX s =
     (if startsWith s [64, 123] then
        (case match_iso_date (drop 2 s) of
           None \<Rightarrow> None
         | Some d \<Rightarrow> if startsWith (drop 12 s) [125] then Some (13, d, None) else None)
      else None)"
| "regex_match_at KANBAN_TIME_REGEX s =
     (if startsWith s [64, 64, 123] then
        (case match_time (drop 3 s) of
           None \<Rightarrow> None
         | Some t \<Rightarrow>
             if startsWith (drop (3 + length t) s) [125] then Some (3 + length t + 1, t, None)
             else None)
      else None)"

fun unicode :: "regex \<Rightarrow> bool" where
  "unicode (EMOJI_DATE syms) = True"
| "unicode SIMPLE_DATE_REGEX = False"
| "unicode KANBAN_DATE_REGEX = False"
| "unicode KANBAN_TIME_REGEX = False"

definition is_high_surrogate :: "nat \<Rightarrow> bool" where
  "is_high_surrogate c \<longleftrightarrow> 55296 \<le> c \<and> c \<le> 56319"

definition is_low_surrogate :: "nat \<Rightarrow> bool" where
  "is_low_surrogate c \<longleftrightarrow> 56320 \<le> c \<and> c \<le> 57343"

text \<open>
  \<open>AdvanceStringIndex\<close>: where the search goes on after a failure at \<open>index\<close>.  Under the
  \<open>u\<close> flag a surrogate pair is stepped over as one code point.
\<close>

definition AdvanceStringIndex :: "jsstring \<Rightarrow> nat \<Rightarrow> bool \<Rightarrow> nat" where
  "AdvanceStringIndex s index u =
     (if \<not> u then index + 1
      else if index + 1 \<ge> length s then index + 1
      else if is_high_surrogate (s ! index) \<and> is_low_surrogate (s ! (index + 1)) then index + 2
      else index + 1)"

subsection \<open>Searching a line\<close>

text \<open>
  \<open>re.exec(line)\<close> with \<open>re.lastIndex = lastIndex\<close>: the first match at or after
  \<open>lastIndex\<close>, as \<open>(index, length, group 1, group 2)\<close>.
\<close>

function regex_exec :: "regex \<Rightarrow> jsstring \<Rightarrow> nat \<Rightarrow> (nat \<times> nat \<times> jsstring \<times> jsstring option) option" where
  "regex_exec re line lastIndex =
     (if lastIndex > length line then None
      else (case regex_match_at re (drop lastIndex line) of
              Some (n, g1, g2) \<Rightarrow> Some (lastIndex, n, g1, g2)
            | None \<Rightarrow> regex_exec re line (AdvanceStringIndex line lastIndex (unicode re))))"
  by pat_completeness auto
termination
  by (relation "measure (\<lambda>(re, line, lastIndex). Suc (length line) - lastIndex)")
     (auto simp: AdvanceStringIndex_def)

declare regex_exec.simps [simp del]

text \<open>
  The loop \<open>while ((match = re.exec(line)) !== null)\<close> of a global regular expression:
  every match from \<open>lastIndex\<close> on, each search starting where the previous match ended.
\<close>

function exec_all :: "regex \<Rightarrow> jsstring \<Rightarrow> nat \<Rightarrow> (nat \<times> nat \<times> jsstring \<times> jsstring option) list" where
  "exec_all re line lastIndex =
     (case regex_exec re line lastIndex of
        None \<Rightarrow> []
      | Some (idx, n, g1, g2) \<Rightarrow> (idx, n, g1, g2) # exec_all re line (idx + n))"
  by pat_completeness auto
termination
proof (relation "measure (\<lambda>(re, line, lastIndex). Suc (length line) - lastIndex)", goal_cases)
  case 1
  show ?case by simp
next
  case (2 re line lastIndex r idx r1 n r2 g1 g2)
  have pos: "0 < k" if "regex_match_at x s = Some (k, a, b)" for x s k a b
    using that
    by (cases x) (auto simp: Let_def match_ws_date_def split: option.splits if_splits)
  have found: "i \<le> j \<and> j \<le> length l \<and> 0 < k"
    if "regex_exec x l i = Some (j, k, a, b)" for x l i j k a b
    using that
  proof (induction x l i rule: regex_exec.induct)
    case (1 re line lastIndex)
    show ?case
    proof (cases "regex_match_at re (drop lastIndex line)")
      case None
      with 1 show ?thesis
        by (auto simp: regex_exec.simps [of re line lastIndex] AdvanceStringIndex_def
            split: if_splits)
    next
      case (Some t)
      with 1 pos show ?thesis
        by (auto simp: regex_exec.simps [of re line lastIndex] split: if_splits prod.splits)
    qed
  qed
  from 2 found [of re line lastIndex idx n g1 g2] show ?case
    by auto
qed

declare exec_all.simps [simp del]

subsection \<open>The four grammars\<close>

text \<open>\<open>timeStr.split(":").map(Number)\<close>, as the pair of hours and minutes.\<close>

definition split_time :: "jsstring \<Rightarrow> nat \<times> nat" where
  "split_time t =
     (Number (takeWhile (\<lambda>c. c \<noteq> 58) t), Number (drop 1 (dropWhile (\<lambda>c. c \<noteq> 58) t)))"

text \<open>The body of the loop of \<open>extractEmojiDates\<close>: what one match pushes, if anything.\<close>

definition emoji_field ::
  "DateFieldType \<Rightarrow> jsstring \<Rightarrow> nat \<times> nat \<times> jsstring \<times> jsstring option \<Rightarrow> ParsedDateField option" where
  "emoji_field ty line mt =
     (case mt of (index, n, dateStr, timeStr) \<Rightarrow>
        (case moment_parse dateStr of
           None \<Rightarrow> None
         | Some d \<Rightarrow>
             Some \<lparr>type = ty,
                   date = (case timeStr of
                             None \<Rightarrow> d
                           | Some t \<Rightarrow>
                               moment_second 0
                                 (moment_minute (snd (split_time t))
                                    (moment_hour (fst (split_time t)) d))),
                   raw = take n (drop index line),
                   start = index,
                   end' = index + n,
                   format = F_tasks,
                   hasTime = Some (timeStr \<noteq> None)\<rparr>))"

definition extractEmojiDates :: "jsstring \<Rightarrow> ParsedDateField list" where
  "extractEmojiDates line =
     concat (map (\<lambda>(ty, re). List.map_filter (emoji_field ty line) (exec_all re line 0))
               EMOJI_DATE_PATTERNS)"

definition findDataviewSeparator :: "jsstring \<Rightarrow> nat \<Rightarrow> (jsstring \<times> nat) option" where
  "findDataviewSeparator line start_ix =
     (case indexOf line [58, 58] start_ix of
        None \<Rightarrow> None
      | Some sep \<Rightarrow> Some (toLowerCase (trim (substring line start_ix sep)), sep + 2))"

text \<open>
  The loop of \<open>findClosingBracket\<close> over the characters from index \<open>i\<close> on; the result is
  the index of the closing bracket.
\<close>

fun closing_loop :: "nat \<Rightarrow> nat \<Rightarrow> jsstring \<Rightarrow> nat \<Rightarrow> int \<Rightarrow> bool \<Rightarrow> nat option" where
  "closing_loop opn cls [] i nesting escaped = None"
| "closing_loop opn cls (char # rest) i nesting escaped =
     (if char = 92 then closing_loop opn cls rest (i + 1) nesting (\<not> escaped)
      else if escaped then closing_loop opn cls rest (i + 1) nesting False
      else
        let nesting' = (if char = opn then nesting + 1
                        else if char = cls then nesting - 1
                        else nesting)
        in if nesting' < 0 then Some i
           else closing_loop opn cls rest (i + 1) nesting' False)"

definition findClosingBracket :: "jsstring \<Rightarrow> nat \<Rightarrow> nat \<Rightarrow> nat \<Rightarrow> (jsstring \<times> nat) option" where
  "findClosingBracket line start_ix opn cls =
     (case closing_loop opn cls (drop start_ix line) start_ix 0 False of
        None \<Rightarrow> None
      | Some i \<Rightarrow> Some (trim (substring line start_ix i), i + 1))"

text \<open>
  One iteration of the \<open>while\<close> loop of \<open>extractDataviewDates\<close>, for the opening
  bracket found at \<open>foundIndex\<close>: the field it pushes, if any, and the next value of
  \<open>searchIndex\<close>.
\<close>

definition dataview_at :: "nat \<Rightarrow> nat \<Rightarrow> jsstring \<Rightarrow> nat \<Rightarrow> ParsedDateField option \<times> nat" where
  "dataview_at opn cls line foundIndex =
     (case findDataviewSeparator line (foundIndex + 1) of
        None \<Rightarrow> (None, foundIndex + 1)
      | Some (key, valueIndex) \<Rightarrow>
          if list_ex (\<lambda>sep. sep \<in> set (substring line (foundIndex + 1) (valueIndex - 2)))
               (map fst DATAVIEW_WRAPPERS @ map snd DATAVIEW_WRAPPERS)
          then (None, foundIndex + 1)
          else
            (case findClosingBracket line valueIndex opn cls of
               None \<Rightarrow> (None, foundIndex + 1)
             | Some (val, endIndex) \<Rightarrow>
                 (case DATAVIEW_KEY_ALIASES key of
                    None \<Rightarrow> (None, endIndex)
                  | Some dateType \<Rightarrow>
                      (case match_iso_date (trim val) of
                         None \<Rightarrow> (None, endIndex)
                       | Some dateMatch \<Rightarrow>
                           (case moment_parse dateMatch of
                              None \<Rightarrow> (None, endIndex)
                            | Some d \<Rightarrow>
                                (Some \<lparr>type = dateType, date = d,
                                       raw = substring line foundIndex endIndex,
                                       start = foundIndex, end' = endIndex,
                                       format = (if opn = 91 then F_dataview_bracket
                                                 else F_dataview_paren),
                                       hasTime = None\<rparr>,
                                 endIndex))))))"

text \<open>The \<open>while\<close> loop of \<open>extractDataviewDates\<close> for one wrapper, from \<open>searchIndex\<close>.\<close>

function dataview_loop :: "nat \<Rightarrow> nat \<Rightarrow> jsstring \<Rightarrow> nat \<Rightarrow> ParsedDateField list" where
  "dataview_loop opn cls line searchIndex =
     (if \<not> searchIndex < length line then []
      else
        (case indexOf line [opn] searchIndex of
           None \<Rightarrow> []
         | Some foundIndex \<Rightarrow>
             (case dataview_at opn cls line foundIndex of
                (None, nextIndex) \<Rightarrow> dataview_loop opn cls line nextIndex
              | (Some f, nextIndex) \<Rightarrow> f # dataview_loop opn cls line nextIndex)))"
  by pat_completeness auto
termination
proof -
  have find_ge: "find_at pat s i = Some j \<Longrightarrow> i \<le> j \<and> j < i + length s" for pat s i j
  proof (induction s arbitrary: i)
    case Nil
    then show ?case by simp
  next
    case (Cons c cs)
    show ?case
    proof (cases "startsWith (c # cs) pat")
      case True
      with Cons.prems show ?thesis by simp
    next
      case False
      with Cons.prems have "find_at pat cs (Suc i) = Some j" by simp
      from Cons.IH [OF this] show ?thesis by simp
    qed
  qed
  have index_ge: "from \<le> j \<and> j < length l" if "indexOf l pat from = Some j" for l pat "from" j
    using find_ge [of pat "drop from l" "from" j] that by (auto simp: indexOf_def)
  have closing_ge: "i \<le> j" if "closing_loop opn cls s i n e = Some j" for opn cls s i n e j
    using that
    by (induction opn cls s i n e rule: closing_loop.induct) (auto simp: Let_def split: if_splits)
  have bracket_ge: "v < e"
    if "findClosingBracket l v opn cls = Some (x, e)" for l v opn cls x e
    using that closing_ge [of opn cls "drop v l" v 0 False]
    by (auto simp: findClosingBracket_def split: option.splits)
  have sep_ge: "i + 2 \<le> v" if "findDataviewSeparator l i = Some (k, v)" for l i k v
    using that index_ge [of l "[58, 58]" i]
    by (auto simp: findDataviewSeparator_def split: option.splits)
  have at_gt: "i < n" if "dataview_at opn cls l i = (r, n)" for opn cls l i r n
  proof (cases "findDataviewSeparator l (i + 1)")
    case None
    with that show ?thesis by (simp add: dataview_at_def)
  next
    case (Some kv)
    obtain k v where kv: "kv = (k, v)" by (cases kv)
    note s = sep_ge [of l "i + 1" k v]
    show ?thesis
    proof (cases "findClosingBracket l v opn cls")
      case None
      with that Some kv show ?thesis by (simp add: dataview_at_def split: if_splits)
    next
      case c: (Some xe)
      obtain x e where xe: "xe = (x, e)" by (cases xe)
      from bracket_ge [of l v opn cls x e] c xe s Some kv have "i < e" by simp
      with that Some kv c xe show ?thesis
        by (auto simp: dataview_at_def split: if_splits option.splits)
    qed
  qed
  show ?thesis
  proof (relation "measure (\<lambda>(opn, cls, line, searchIndex). length line - searchIndex)",
      goal_cases)
    case 1
    show ?case by simp
  next
    case (2 opn cls line searchIndex foundIndex r nxt)
    then show ?case
      using index_ge [of line "[opn]" searchIndex foundIndex]
        at_gt [of opn cls line foundIndex r nxt]
      by auto
  next
    case (3 opn cls line searchIndex foundIndex r nxt f)
    then show ?case
      using index_ge [of line "[opn]" searchIndex foundIndex]
        at_gt [of opn cls line foundIndex r nxt]
      by auto
  qed
qed

declare dataview_loop.simps [simp del]

definition extractDataviewDates :: "jsstring \<Rightarrow> ParsedDateField list" where
  "extractDataviewDates line =
     concat (map (\<lambda>(opn, cls). dataview_loop opn cls line 0) DATAVIEW_WRAPPERS)"

definition simple_field ::
  "jsstring \<Rightarrow> nat \<times> nat \<times> jsstring \<times> jsstring option \<Rightarrow> ParsedDateField option" where
  "simple_field line mt =
     (case mt of (index, n, dateStr, g2) \<Rightarrow>
        (case moment_parse dateStr of
           None \<Rightarrow> None
         | Some d \<Rightarrow>
             Some \<lparr>type = Due, date = d, raw = take n (drop index line), start = index,
                   end' = index + n, format = F_simple, hasTime = None\<rparr>))"

definition extractSimpleDates :: "jsstring \<Rightarrow> ParsedDateField list" where
  "extractSimpleDates line =
     List.map_filter (simple_field line) (exec_all SIMPLE_DATE_REGEX line 0)"

definition kanban_field ::
  "jsstring \<Rightarrow> bool \<Rightarrow> nat \<Rightarrow> nat \<Rightarrow> nat \<times> nat \<times> jsstring \<times> jsstring option \<Rightarrow>
     ParsedDateField option" where
  "kanban_field line has_time hours minutes mt =
     (case mt of (index, n, dateStr, g2) \<Rightarrow>
        (case moment_parse dateStr of
           None \<Rightarrow> None
         | Some d \<Rightarrow>
             Some \<lparr>type = Due,
                   date = (if has_time
                           then moment_second 0 (moment_minute minutes (moment_hour hours d))
                           else d),
                   raw = take n (drop index line), start = index, end' = index + n,
                   format = F_kanban, hasTime = Some has_time\<rparr>))"

definition extractKanbanDates :: "jsstring \<Rightarrow> ParsedDateField list" where
  "extractKanbanDates line =
     (let timeMatch = regex_exec KANBAN_TIME_REGEX line 0;
          has_time = (timeMatch \<noteq> None);
          hm = (case timeMatch of None \<Rightarrow> (0, 0) | Some (index, n, t, g2) \<Rightarrow> split_time t)
      in List.map_filter (kanban_field line has_time (fst hm) (snd hm))
           (exec_all KANBAN_DATE_REGEX line 0))"

subsection \<open>Extraction, primary date, stripping, formatting\<close>

text \<open>One step of the loop that removes overlapping entries.\<close>

definition push_non_overlapping :: "ParsedDateField list \<Rightarrow> ParsedDateField \<Rightarrow> ParsedDateField list" where
  "push_non_overlapping filtered d =
     (if filtered = [] \<or> end' (last filtered) \<le> start d then filtered @ [d] else filtered)"

text \<open>The list \<open>allDates\<close> of \<open>extractAllDates\<close> before it is sorted.\<close>

definition collect_dates :: "jsstring \<Rightarrow> DateFormatType option \<Rightarrow> ParsedDateField list" where
  "collect_dates line formatFilter =
       (if formatFilter = None \<or> formatFilter = Some Tasks then extractEmojiDates line else [])
     @ (if formatFilter = None \<or> formatFilter = Some Dataview then extractDataviewDates line else [])
     @ (if formatFilter = None \<or> formatFilter = Some Simple then extractSimpleDates line else [])
     @ (if formatFilter = None \<or> formatFilter = Some Kanban then extractKanbanDates line else [])"

text \<open>\<open>Array.prototype.sort\<close> is stable, as the insertion sort \<open>sort_key\<close> is.\<close>

definition extractAllDates :: "jsstring \<Rightarrow> DateFormatType option \<Rightarrow> ParsedDateField list" where
  "extractAllDates line formatFilter =
     foldl push_non_overlapping [] (sort_key start (collect_dates line formatFilter))"

definition DEFAULT_PRIORITY :: "DateFieldType list" where
  "DEFAULT_PRIORITY = [Due, Scheduled, Start, Created, Done, Cancelled]"

text \<open>The loop of \<open>getPrimaryDate\<close> over the priority order.\<close>

fun find_priority :: "DateFieldType list \<Rightarrow> ParsedDateField list \<Rightarrow> ParsedDateField option" where
  "find_priority [] allDates = None"
| "find_priority (ty # rest) allDates =
     (case find (\<lambda>d. type d = ty) allDates of
        Some found \<Rightarrow> Some found
      | None \<Rightarrow> find_priority rest allDates)"

definition getPrimaryDate ::
  "jsstring \<Rightarrow> DateFieldType list \<Rightarrow> DateFormatType option \<Rightarrow> ParsedDateField option" where
  "getPrimaryDate line priorityOrder formatFilter =
     (let allDates = extractAllDates line formatFilter
      in if length allDates = 0 then None
         else (case find_priority priorityOrder allDates of
                 Some found \<Rightarrow> Some found
               | None \<Rightarrow> Some (allDates ! 0)))"

text \<open>\<open>replace(/\s+/g, " ")\<close>.\<close>

function collapse_ws :: "jsstring \<Rightarrow> jsstring" where
  "collapse_ws [] = []"
| "collapse_ws (c # cs) =
     (if is_ws c then 32 # collapse_ws (dropWhile is_ws cs) else c # collapse_ws cs)"
  by pat_completeness auto
termination
  by (relation "measure length") (auto simp: length_dropWhile_le less_Suc_eq_le)

definition stripDates :: "jsstring \<Rightarrow> jsstring" where
  "stripDates line =
     (let dates = extractAllDates line None
      in if length dates = 0 then line
         else trim (collapse_ws
                (foldr (\<lambda>d result. take (start d) result @ drop (end' d) result) dates line)))"

text \<open>
  \<open>formatDate\<close>.  The parameter \<open>includeTime\<close> has the default \<open>false\<close>, which also stands
  for an argument that is \<open>undefined\<close>.  The result \<open>None\<close> is the \<open>TypeError\<close> that
  \<open>symbols[0]\<close> throws when the table of symbols has no entry for the type.
\<close>

definition formatDate :: "DateFieldType \<Rightarrow> moment \<Rightarrow> FieldFormat \<Rightarrow> bool \<Rightarrow> jsstring option" where
  "formatDate ty d fmt includeTime =
     (let dateStr = format_date d;
          timeStr = format_time d;
          hasValidTime = (includeTime \<and> (hour d \<noteq> 0 \<or> minute d \<noteq> 0))
      in case fmt of
           F_tasks \<Rightarrow>
             (case DATE_SYMBOLS ty of
                None \<Rightarrow> None
              | Some symbols \<Rightarrow>
                  if hasValidTime then Some (symbols ! 0 @ [32] @ dateStr @ [32] @ timeStr)
                  else Some (symbols ! 0 @ [32] @ dateStr))
         | F_dataview_bracket \<Rightarrow>
             (if hasValidTime
              then Some ([91] @ enum_value ty @ [58, 58, 32] @ dateStr @ [84] @ timeStr @ [93])
              else Some ([91] @ enum_value ty @ [58, 58, 32] @ dateStr @ [93]))
         | F_dataview_paren \<Rightarrow>
             (if hasValidTime
              then Some ([40] @ enum_value ty @ [58, 58, 32] @ dateStr @ [84] @ timeStr @ [41])
              else Some ([40] @ enum_value ty @ [58, 58, 32] @ dateStr @ [41]))
         | F_simple \<Rightarrow> Some ([64, 32] @ dateStr)
         | F_kanban \<Rightarrow>
             (if hasValidTime
              then Some ([64, 123] @ dateStr @ [125, 32, 64, 64, 123] @ timeStr @ [125])
              else Some ([64, 123] @ dateStr @ [125])))"

text \<open>An optional flag used as a condition or as \<open>includeTime\<close>: \<open>undefined\<close> is false.\<close>

definition truthy :: "bool option \<Rightarrow> bool" where
  "truthy b = (case b of None \<Rightarrow> False | Some v \<Rightarrow> v)"

section \<open>The calendar view\<close>

record TaskLine =
  task_id :: jsstring
  lineIndex :: nat
  markdown :: jsstring
  title :: jsstring
  task_date :: moment
  dateType :: DateFieldType
  allDates :: "ParsedDateField list"
  task_hasTime :: "bool option"
  isKanban :: "bool option"
  completed :: bool
  sectionId :: jsstring

text \<open>
  \<open>TASK_PREFIX_REGEX\<close>, \<open>/^(\s*-\s*\[(.)\])\s*/\<close>, at the start of a line: the length of
  the match and the check mark.  The dot matches any code unit but a line terminator.
\<close>

definition match_TASK_PREFIX :: "jsstring \<Rightarrow> (nat \<times> nat) option" where
  "match_TASK_PREFIX line =
     (let n1 = length (takeWhile is_ws line); s1 = drop n1 line
      in if startsWith s1 [45] then
           let s2 = drop 1 s1; n2 = length (takeWhile is_ws s2); s3 = drop n2 s2
           in if 3 \<le> length s3 \<and> s3 ! 0 = 91 \<and> s3 ! 1 \<noteq> 10 \<and> s3 ! 1 \<noteq> 13 \<and>
                 s3 ! 1 \<noteq> 8232 \<and> s3 ! 1 \<noteq> 8233 \<and> s3 ! 2 = 93
              then Some (n1 + 1 + n2 + 3 + length (takeWhile is_ws (drop 3 s3)), s3 ! 1)
              else None
         else None)"

text \<open>
  What \<open>parseMarkdown\<close> makes of one line that is not a heading: the task it registers, or
  \<open>None\<close> when the line is skipped.
\<close>

definition parse_task ::
  "DateFieldType list \<Rightarrow> DateFormatType option \<Rightarrow> jsstring \<Rightarrow> nat \<Rightarrow> jsstring \<Rightarrow> TaskLine option" where
  "parse_task datePriority formatFilter currentSectionId index line =
     (case match_TASK_PREFIX line of
        None \<Rightarrow> None
      | Some (n, checkMark) \<Rightarrow>
          let contentAfterCheckbox = drop n line
          in (case getPrimaryDate contentAfterCheckbox datePriority formatFilter of
                None \<Rightarrow> None
              | Some primaryDate \<Rightarrow>
                  Some \<lparr>task_id = nat_digits index,
                        lineIndex = index,
                        markdown = line,
                        title = (if trim (stripDates contentAfterCheckbox) \<noteq> []
                                 then trim (stripDates contentAfterCheckbox)
                                 else str ''Untitled Task''),
                        task_date = date primaryDate,
                        dateType = type primaryDate,
                        allDates = extractAllDates contentAfterCheckbox formatFilter,
                        task_hasTime = hasTime primaryDate,
                        isKanban = Some (format primaryDate = F_kanban),
                        completed = (checkMark \<noteq> 32),
                        sectionId = currentSectionId\<rparr>))"

text \<open>
  The start and end strings that \<open>updateCalendarEvents\<close> computes for one task.
\<close>

definition event_times :: "TaskLine \<Rightarrow> jsstring \<times> jsstring" where
  "event_times task =
     (if truthy (isKanban task) \<and> truthy (task_hasTime task) then
        (format_date_time (task_date task), format_date_time (add_minutes 30 (task_date task)))
      else
        (case (find (\<lambda>d. type d = Start) (allDates task), find (\<lambda>d. type d = Due) (allDates task)) of
           (Some startField, Some dueField) \<Rightarrow>
             if truthy (hasTime startField) \<or> truthy (hasTime dueField) then
               (format_date_time (date startField),
                if truthy (hasTime dueField) then format_date_time (date dueField)
                else format_date_time (moment_minute 59 (moment_hour 23 (date dueField))))
             else (format_date (date startField), format_date (date dueField))
         | (Some startField, None) \<Rightarrow>
             if truthy (hasTime startField) then
               (format_date_time (date startField),
                format_date_time (add_minutes 30 (date startField)))
             else (format_date (date startField), format_date (date startField))
         | (None, Some dueField) \<Rightarrow>
             if truthy (hasTime dueField) then
               (format_date_time (date dueField), format_date_time (add_minutes 30 (date dueField)))
             else (format_date (date dueField), format_date (date dueField))
         | (None, None) \<Rightarrow>
             if truthy (task_hasTime task) then
               (format_date_time (task_date task),
                format_date_time (add_minutes 30 (task_date task)))
             else (format_date (task_date task), format_date (task_date task))))"

definition isDefaultDropTime :: "moment \<Rightarrow> bool" where
  "isDefaultDropTime d \<longleftrightarrow> (hour d = 0 \<and> minute d = 0) \<or> (hour d = 12 \<and> minute d = 0)"

definition normalizeAllDayEnd ::
  "moment \<Rightarrow> moment \<Rightarrow> TaskLine \<Rightarrow> ParsedDateField option \<Rightarrow> ParsedDateField option \<Rightarrow> moment" where
  "normalizeAllDayEnd newStart newEnd task startField dueField =
     (let hasExplicitTime =
            (truthy (task_hasTime task) \<or>
             (case startField of None \<Rightarrow> False | Some f \<Rightarrow> truthy (hasTime f)) \<or>
             (case dueField of None \<Rightarrow> False | Some f \<Rightarrow> truthy (hasTime f)))
      in if isDefaultDropTime newEnd then
           (if isAfter_day newEnd newStart then
              (if hasExplicitTime then moment_minute 59 (moment_hour 23 (subtract_day newEnd))
               else subtract_day newEnd)
            else newEnd)
         else newEnd)"

definition CANONICAL_ORDER :: "DateFieldType list" where
  "CANONICAL_ORDER = [Start, Scheduled, Due, Created, Done, Cancelled]"

text \<open>\<open>reconstructLine\<close>; an empty string is falsy, so it is not appended.\<close>

definition reconstructLine :: "jsstring \<Rightarrow> (DateFieldType \<rightharpoonup> jsstring) \<Rightarrow> jsstring" where
  "reconstructLine baseLine dateUpdates =
     foldl (\<lambda>result ty.
              case dateUpdates ty of
                None \<Rightarrow> result
              | Some formatted \<Rightarrow> if formatted \<noteq> [] then result @ [32] @ formatted else result)
       (trimEnd baseLine) CANONICAL_ORDER"

text \<open>
  The loop "preserve all existing dates first" of \<open>handleEventDrop\<close> and
  \<open>handleEventResize\<close>, from the empty map: each field sets the entry of its type.  The
  result is \<open>None\<close> when \<open>formatDate\<close> throws.
\<close>

definition preserve_existing :: "ParsedDateField list \<Rightarrow> (DateFieldType \<rightharpoonup> jsstring) option" where
  "preserve_existing ds =
     foldl (\<lambda>acc d. do {
              dateUpdates \<leftarrow> acc;
              formatted \<leftarrow> formatDate (type d) (date d) (format d) (truthy (hasTime d));
              Some (dateUpdates(type d \<mapsto> formatted))
            })
       (Some Map.empty) ds"

text \<open>The value of \<open>newEndMoment\<close> in \<open>handleEventDrop\<close>.\<close>

definition drop_newEndMoment :: "TaskLine \<Rightarrow> moment \<Rightarrow> moment \<Rightarrow> moment" where
  "drop_newEndMoment task newStart newEnd =
     (let startField = find (\<lambda>d. type d = Start) (allDates task);
          dueField = find (\<lambda>d. type d = Due) (allDates task)
      in case (startField, dueField) of
           (Some sf, Some df) \<Rightarrow> add_milliseconds (diff newStart (date sf)) (date df)
         | _ \<Rightarrow> normalizeAllDayEnd newStart newEnd task startField dueField)"

text \<open>
  The map \<open>dateUpdates\<close> of \<open>handleEventDrop\<close> when the line is reconstructed; \<open>None\<close> when
  \<open>formatDate\<close> has thrown before.
\<close>

definition drop_dateUpdates ::
  "TaskLine \<Rightarrow> moment \<Rightarrow> moment \<Rightarrow> (DateFieldType \<rightharpoonup> jsstring) option" where
  "drop_dateUpdates task newStart newEnd =
     (let startHasTime = (hour newStart \<noteq> 0 \<or> minute newStart \<noteq> 0);
          endHasTime = (hour newEnd \<noteq> 0 \<or> minute newEnd \<noteq> 0);
          newEndMoment = drop_newEndMoment task newStart newEnd
      in do {
        dateUpdates \<leftarrow> preserve_existing (allDates task);
        case (find (\<lambda>d. type d = Start) (allDates task),
              find (\<lambda>d. type d = Due) (allDates task)) of
          (Some startField, Some dueField) \<Rightarrow>
            let finalStartMoment =
                  (if truthy (hasTime startField) \<and> isDefaultDropTime newStart
                   then moment_minute (minute (date startField))
                          (moment_hour (hour (date startField)) newStart)
                   else newStart);
                restoredEnd =
                  (if truthy (hasTime dueField) \<and> isDefaultDropTime newEnd
                   then moment_minute (minute (date dueField))
                          (moment_hour (hour (date dueField)) newEndMoment)
                   else newEndMoment);
                wasMultiDay = (\<not> isSame_day (date startField) (date dueField));
                isNowSingleDay = isSame_day finalStartMoment restoredEnd;
                finalEndMoment =
                  (if wasMultiDay \<and> isNowSingleDay \<and> isSameOrBefore restoredEnd finalStartMoment
                   then moment_minute 59 (moment_hour 23 restoredEnd)
                   else restoredEnd);
                startIncludeTime =
                  (truthy (hasTime startField) \<or> (startHasTime \<and> \<not> isDefaultDropTime newStart));
                endIncludeTime =
                  (truthy (hasTime dueField) \<or> (endHasTime \<and> \<not> isDefaultDropTime newEnd))
            in do {
              newStartText \<leftarrow> formatDate Start finalStartMoment (format startField) startIncludeTime;
              newDueText \<leftarrow> formatDate Due finalEndMoment (format dueField) endIncludeTime;
              Some (dateUpdates(Start \<mapsto> newStartText, Due \<mapsto> newDueText))
            }
        | _ \<Rightarrow>
            (case find (\<lambda>d. type d = dateType task) (allDates task) of
               Some primaryDateField \<Rightarrow> do {
                 formatted \<leftarrow>
                   formatDate (type primaryDateField) newStart (format primaryDateField)
                     (startHasTime \<or> truthy (hasTime primaryDateField));
                 Some (dateUpdates(type primaryDateField \<mapsto> formatted))
               }
             | None \<Rightarrow> do {
                 formatted \<leftarrow> formatDate (dateType task) newStart F_tasks startHasTime;
                 Some (dateUpdates(dateType task \<mapsto> formatted))
               })
      })"

text \<open>
  The line that \<open>handleEventDrop\<close> writes back in place of \<open>line\<close>, the target line it
  has located in the file; \<open>None\<close> when it writes nothing because \<open>formatDate\<close> has thrown
  and the \<open>catch\<close> clause has taken over.
\<close>

definition handleEventDrop :: "TaskLine \<Rightarrow> jsstring \<Rightarrow> moment \<Rightarrow> moment \<Rightarrow> jsstring option" where
  "handleEventDrop task line newStart newEnd =
     map_option (reconstructLine (stripDates line)) (drop_dateUpdates task newStart newEnd)"

text \<open>
  The map \<open>dateUpdates\<close> of \<open>handleEventResize\<close> when the line is reconstructed; \<open>None\<close> when
  \<open>formatDate\<close> has thrown before.
\<close>

definition resize_dateUpdates ::
  "TaskLine \<Rightarrow> moment \<Rightarrow> moment \<Rightarrow> (DateFieldType \<rightharpoonup> jsstring) option" where
  "resize_dateUpdates task newStart newEnd =
     (let startHasTime = (hour newStart \<noteq> 0 \<or> minute newStart \<noteq> 0);
          endHasTime = (hour newEnd \<noteq> 0 \<or> minute newEnd \<noteq> 0);
          startField = find (\<lambda>d. type d = Start) (allDates task);
          dueField = find (\<lambda>d. type d = Due) (allDates task);
          primaryField = find (\<lambda>d. type d = dateType task) (allDates task);
          newEndMoment = normalizeAllDayEnd newStart newEnd task startField dueField;
          isMultiDay = (format_date newStart \<noteq> format_date newEndMoment);
          wasMultiDay = (case (startField, dueField) of
                           (Some sf, Some df) \<Rightarrow> \<not> isSame_day (date sf) (date df)
                         | _ \<Rightarrow> False);
          isNowSingleDay = (format_date newStart = format_date newEndMoment);
          restore = (wasMultiDay \<and> isNowSingleDay);
          finalStartMoment =
            (case startField of
               Some sf \<Rightarrow>
                 if restore \<and> truthy (hasTime sf) \<and> isDefaultDropTime newStart
                 then moment_minute (minute (date sf)) (moment_hour (hour (date sf)) newStart)
                 else newStart
             | None \<Rightarrow> newStart);
          restoredEnd =
            (case dueField of
               Some df \<Rightarrow>
                 if restore \<and> truthy (hasTime df) \<and> isDefaultDropTime newEnd
                 then moment_minute (minute (date df)) (moment_hour (hour (date df)) newEndMoment)
                 else newEndMoment
             | None \<Rightarrow> newEndMoment);
          finalEndMoment =
            (if restore \<and> isSameOrBefore restoredEnd finalStartMoment
             then moment_minute 59 (moment_hour 23 restoredEnd)
             else restoredEnd)
      in do {
        dateUpdates \<leftarrow> preserve_existing (allDates task);
        u1 \<leftarrow> (case startField of
                Some sf \<Rightarrow> do {
                  formatted \<leftarrow>
                    formatDate Start finalStartMoment (format sf)
                      (truthy (hasTime sf) \<or> (startHasTime \<and> \<not> isDefaultDropTime newStart));
                  Some (dateUpdates(Start \<mapsto> formatted))
                }
              | None \<Rightarrow> Some dateUpdates);
        u2 \<leftarrow> (case dueField of
                Some df \<Rightarrow> do {
                  formatted \<leftarrow>
                    formatDate Due finalEndMoment (format df)
                      (truthy (hasTime df) \<or> (endHasTime \<and> \<not> isDefaultDropTime newEnd));
                  Some (u1(Due \<mapsto> formatted))
                }
              | None \<Rightarrow> Some u1);
        if isMultiDay \<or> (startHasTime \<and> endHasTime) then do {
          u3 \<leftarrow> (if startField = None
                 then do {
                   formatted \<leftarrow> formatDate Start finalStartMoment F_tasks startHasTime;
                   Some (u2(Start \<mapsto> formatted))
                 }
                 else Some u2);
          if dueField = None
          then do {
            formatted \<leftarrow> formatDate Due finalEndMoment F_tasks endHasTime;
            Some (u3(Due \<mapsto> formatted))
          }
          else Some u3
        }
        else if startField = None \<and> dueField = None then
          (case primaryField of
             Some pf \<Rightarrow> do {
               formatted \<leftarrow>
                 formatDate (type pf) finalStartMoment (format pf)
                   (startHasTime \<or> truthy (hasTime pf));
               Some (u2(type pf \<mapsto> formatted))
             }
           | None \<Rightarrow> Some u2)
        else Some u2
      })"

text \<open>
  The line that \<open>handleEventResize\<close> writes back; \<open>None\<close> when it writes nothing, because
  the task is in Kanban format or because \<open>formatDate\<close> has thrown and the \<open>catch\<close> clause
  has taken over.  It only goes on when the line of the file still is \<open>markdown task\<close>.
\<close>

definition handleEventResize :: "TaskLine \<Rightarrow> moment \<Rightarrow> moment \<Rightarrow> jsstring option" where
  "handleEventResize task newStart newEnd =
     (if truthy (isKanban task) then None
      else map_option (reconstructLine (stripDates (markdown task)))
             (resize_dateUpdates task newStart newEnd))"
section \<open>Example lines\<close>




text \<open>
  A task line with a timed start date, a due date and two scheduled dates, and the fields
  of its content after the checkbox.
\<close>

definition trip_line :: jsstring where
  "trip_line =
     str ''- [ ] Trip '' @ [55357, 57067] @ str '' 2025-01-10 09:00 '' @ [55357, 56517] @
     str '' 2025-01-12 '' @ [9203] @ str '' 2025-01-01 '' @ [9203] @ str '' 2025-01-02''"

definition trip_start :: ParsedDateField where
  "trip_start =
     \<lparr>type = Start,
      date = \<lparr>year = 2025, month = 1, day = 10, hour = 9, minute = 0, second = 0,
               millisecond = 0\<rparr>,
      raw = [55357, 57067] @ str '' 2025-01-10 09:00'', start = 5, end' = 24, format = F_tasks,
      hasTime = Some True\<rparr>"

definition trip_due :: ParsedDateField where
  "trip_due =
     \<lparr>type = Due,
      date = \<lparr>year = 2025, month = 1, day = 12, hour = 0, minute = 0, second = 0,
               millisecond = 0\<rparr>,
      raw = [55357, 56517] @ str '' 2025-01-12'', start = 25, end' = 38, format = F_tasks,
      hasTime = Some False\<rparr>"

definition trip_scheduled1 :: ParsedDateField where
  "trip_scheduled1 =
     \<lparr>type = Scheduled,
      date = \<lparr>year = 2025, month = 1, day = 1, hour = 0, minute = 0, second = 0,
               millisecond = 0\<rparr>,
      raw = [9203] @ str '' 2025-01-01'', start = 39, end' = 51, format = F_tasks,
      hasTime = Some False\<rparr>"

definition trip_scheduled2 :: ParsedDateField where
  "trip_scheduled2 =
     \<lparr>type = Scheduled,
      date = \<lparr>year = 2025, month = 1, day = 2, hour = 0, minute = 0, second = 0,
               millisecond = 0\<rparr>,
      raw = [9203] @ str '' 2025-01-02'', start = 52, end' = 64, format = F_tasks,
      hasTime = Some False\<rparr>"

definition trip_task :: TaskLine where
  "trip_task =
     \<lparr>task_id = str ''7'', lineIndex = 7, markdown = trip_line, title = str ''Trip'',
      task_date = date trip_due, dateType = Due,
      allDates = [trip_start, trip_due, trip_scheduled1, trip_scheduled2],
      task_hasTime = Some False, isKanban = Some False, completed = False,
      sectionId = str ''Default''\<rparr>"

text \<open>
  The Kanban scenario of the specification, a date token and a time token, and the task
  of that line after a checkbox.  The at sign is the code unit 64.
\<close>

definition kanban_line :: jsstring where
  "kanban_line = [64] @ str ''{2025-03-01} '' @ [64, 64] @ str ''{09:00}''"

definition kanban_due :: ParsedDateField where
  "kanban_due =
     \<lparr>type = Due,
      date = \<lparr>year = 2025, month = 3, day = 1, hour = 9, minute = 0, second = 0,
               millisecond = 0\<rparr>,
      raw = [64] @ str ''{2025-03-01}'', start = 0, end' = 13, format = F_kanban,
      hasTime = Some True\<rparr>"

definition kanban_task :: TaskLine where
  "kanban_task =
     \<lparr>task_id = str ''0'', lineIndex = 0, markdown = str ''- [ ] '' @ kanban_line,
      title = [64, 64] @ str ''{09:00}'', task_date = date kanban_due, dateType = Due,
      allDates = [kanban_due], task_hasTime = Some True, isKanban = Some True,
      completed = False, sectionId = str ''Default''\<rparr>"

text \<open>A drop of the trip one day later: the reported start and end.\<close>

definition drop_start :: moment where
  "drop_start =
     \<lparr>year = 2025, month = 1, day = 11, hour = 9, minute = 0, second = 0, millisecond = 0\<rparr>"

definition drop_end :: moment where
  "drop_end =
     \<lparr>year = 2025, month = 1, day = 13, hour = 0, minute = 0, second = 0, millisecond = 0\<rparr>"

text \<open>
  A drop of the trip on the all-day row five days later: the reported start is midnight, the
  reported end the midnight after the last day.
\<close>

definition allday_drop_start :: moment where
  "allday_drop_start =
     \<lparr>year = 2025, month = 1, day = 15, hour = 0, minute = 0, second = 0, millisecond = 0\<rparr>"

definition allday_drop_end :: moment where
  "allday_drop_end =
     \<lparr>year = 2025, month = 1, day = 17, hour = 0, minute = 0, second = 0, millisecond = 0\<rparr>"

text \<open>A drop of the trip one day and one hour later, and a reported end with a time.\<close>

definition hour_drop_start :: moment where
  "hour_drop_start =
     \<lparr>year = 2025, month = 1, day = 11, hour = 10, minute = 0, second = 0, millisecond = 0\<rparr>"

definition timed_drop_end :: moment where
  "timed_drop_end =
     \<lparr>year = 2025, month = 1, day = 13, hour = 15, minute = 45, second = 0, millisecond = 0\<rparr>"

text \<open>A Dataview start field whose value carries a time joined by \<open>T\<close>.\<close>

definition dataview_time_line :: jsstring where
  "dataview_time_line = str ''[start:: 2025-01-15T14:30]''"

definition dataview_time_moment :: moment where
  "dataview_time_moment =
     \<lparr>year = 2025, month = 1, day = 15, hour = 14, minute = 30, second = 0, millisecond = 0\<rparr>"

text \<open>
  A line on which two grammars claim the same characters: the value of the Dataview field
  holds a date in the simple format, and another simple date follows the field.
\<close>

definition overlap_line :: jsstring where
  "overlap_line = str ''[due:: 2025-01-15 @2025-01-16] @2025-01-20''"

definition overlap_dataview :: ParsedDateField where
  "overlap_dataview =
     \<lparr>type = Due,
      date = \<lparr>year = 2025, month = 1, day = 15, hour = 0, minute = 0, second = 0,
               millisecond = 0\<rparr>,
      raw = str ''[due:: 2025-01-15 @2025-01-16]'', start = 0, end' = 30,
      format = F_dataview_bracket, hasTime = None\<rparr>"

definition overlap_inner :: ParsedDateField where
  "overlap_inner =
     \<lparr>type = Due,
      date = \<lparr>year = 2025, month = 1, day = 16, hour = 0, minute = 0, second = 0,
               millisecond = 0\<rparr>,
      raw = str ''@2025-01-16'', start = 18, end' = 29, format = F_simple, hasTime = None\<rparr>"

definition overlap_after :: ParsedDateField where
  "overlap_after =
     \<lparr>type = Due,
      date = \<lparr>year = 2025, month = 1, day = 20, hour = 0, minute = 0, second = 0,
               millisecond = 0\<rparr>,
      raw = str ''@2025-01-20'', start = 31, end' = 42, format = F_simple, hasTime = None\<rparr>"

text \<open>A Kanban date token on a line without a time token.\<close>

definition kanban_plain_line :: jsstring where
  "kanban_plain_line = str ''Pay rent '' @ [64] @ str ''{2025-03-01}''"

definition kanban_plain_due :: ParsedDateField where
  "kanban_plain_due =
     \<lparr>type = Due,
      date = \<lparr>year = 2025, month = 3, day = 1, hour = 0, minute = 0, second = 0,
               millisecond = 0\<rparr>,
      raw = [64] @ str ''{2025-03-01}'', start = 9, end' = 22, format = F_kanban,
      hasTime = Some False\<rparr>"

text \<open>
  A line with runs of blanks before and after its date, and a line with a Dataview field
  whose key, \<open>constructor\<close>, is a property that the alias table inherits.
\<close>

definition spaced_line :: jsstring where
  "spaced_line = str ''Call  Bob '' @ [55357, 56517] @ str '' 2025-11-29  now''"

definition spaced_due :: ParsedDateField where
  "spaced_due =
     \<lparr>type = Due,
      date = \<lparr>year = 2025, month = 11, day = 29, hour = 0, minute = 0, second = 0,
               millisecond = 0\<rparr>,
      raw = [55357, 56517] @ str '' 2025-11-29'', start = 10, end' = 23, format = F_tasks,
      hasTime = Some False\<rparr>"

definition inherited_line :: jsstring where
  "inherited_line = str ''Task [constructor:: 2025-01-15]''"

definition inherited_field :: ParsedDateField where
  "inherited_field =
     \<lparr>type = Object_constructor,
      date = \<lparr>year = 2025, month = 1, day = 15, hour = 0, minute = 0, second = 0,
               millisecond = 0\<rparr>,
      raw = str ''[constructor:: 2025-01-15]'', start = 5, end' = 31,
      format = F_dataview_bracket, hasTime = None\<rparr>"

text \<open>A Kanban date token and a time token whose hours are beyond the day.\<close>

definition kanban_late_line :: jsstring where
  "kanban_late_line = [64] @ str ''{2025-03-01} '' @ [64, 64] @ str ''{25:00}''"
section \<open>Notions of the specification\<close>

text \<open>
  The overlap resolution in the words of the specification: walking the sorted list from
  left to right, a field is kept only if its start is at or after the end of the last kept
  field (there is none before the first field); any other field is dropped.
\<close>

fun keep_from :: "ParsedDateField option \<Rightarrow> ParsedDateField list \<Rightarrow> ParsedDateField list" where
  "keep_from lastKept [] = []"
| "keep_from lastKept (d # ds) =
     (if lastKept = None \<or> end' (the lastKept) \<le> start d then d # keep_from (Some d) ds
      else keep_from lastKept ds)"

text \<open>The span of a field is a non-empty part of the line, and \<open>raw\<close> is the text there.\<close>

definition span_ok :: "jsstring \<Rightarrow> ParsedDateField \<Rightarrow> bool" where
  "span_ok line f \<longleftrightarrow>
     start f < end' f \<and> end' f \<le> length line \<and>
     raw f = take (end' f - start f) (drop (start f) line)"

text \<open>
  The line with each matched span removed: the characters of the line, in their order, whose
  index lies in the span of no field.
\<close>

definition in_span :: "nat \<Rightarrow> ParsedDateField \<Rightarrow> bool" where
  "in_span i d \<longleftrightarrow> start d \<le> i \<and> i < end' d"

fun chars_outside :: "ParsedDateField list \<Rightarrow> nat \<Rightarrow> jsstring \<Rightarrow> jsstring" where
  "chars_outside ds i [] = []"
| "chars_outside ds i (c # cs) =
     (if list_ex (in_span i) ds then [] else [c]) @ chars_outside ds (i + 1) cs"

definition remove_spans :: "ParsedDateField list \<Rightarrow> jsstring \<Rightarrow> jsstring" where
  "remove_spans ds line = chars_outside ds 0 line"

text \<open>
  The field of the Kanban date token at index \<open>j\<close> whose text denotes the day \<open>d\<close>, on a line
  whose time token, if there is one, has the text \<open>time\<close>: the hours and minutes of the token
  are set on the day.
\<close>

definition kanban_entry :: "jsstring \<Rightarrow> nat \<Rightarrow> moment \<Rightarrow> jsstring option \<Rightarrow> ParsedDateField" where
  "kanban_entry line j d time =
     \<lparr>type = Due,
      date = (case time of
                None \<Rightarrow> d
              | Some t \<Rightarrow>
                  moment_second 0
                    (moment_minute (snd (split_time t)) (moment_hour (fst (split_time t)) d))),
      raw = take 13 (drop j line), start = j, end' = j + 13, format = F_kanban,
      hasTime = Some (time \<noteq> None)\<rparr>"

text \<open>
  A string with all runs of white space collapsed to one space and both ends trimmed: its
  words, the maximal runs of characters that are not white space, joined by single spaces.
\<close>

function ws_words :: "jsstring \<Rightarrow> jsstring list" where
  "ws_words s =
     (case dropWhile is_ws s of
        [] \<Rightarrow> []
      | c # cs \<Rightarrow>
          takeWhile (\<lambda>x. \<not> is_ws x) (c # cs) # ws_words (dropWhile (\<lambda>x. \<not> is_ws x) (c # cs)))"
  by pat_completeness auto
termination
proof (relation "measure length", goal_cases)
  case 1
  show ?case by simp
next
  case (2 s c cs)
  have "length (dropWhile (\<lambda>x. \<not> is_ws x) (c # cs)) \<le> length (c # cs)"
    by (rule length_dropWhile_le)
  moreover from 2 have "\<not> is_ws c"
    by (metis hd_dropWhile list.distinct(1) list.sel(1))
  ultimately have "length (dropWhile (\<lambda>x. \<not> is_ws x) (c # cs)) \<le> length cs"
    using length_dropWhile_le [of "\<lambda>x. \<not> is_ws x" cs] by simp
  moreover have "length (c # cs) \<le> length s"
    using 2 length_dropWhile_le [of is_ws s] by simp
  ultimately show ?case by simp
qed

declare ws_words.simps [simp del]

fun join_words :: "jsstring list \<Rightarrow> jsstring" where
  "join_words [] = []"
| "join_words [w] = w"
| "join_words (w # v # ws) = w @ [32] @ join_words (v # ws)"
section \<open>Properties of the search\<close>

lemma startsWith_iff: "startsWith s p \<longleftrightarrow> take (length p) s = p"
  by (induction s p rule: startsWith.induct) auto

lemma startsWith_hd: "startsWith s (c # p) \<Longrightarrow> c \<in> set s"
  by (cases s) auto

lemma match_iso_date_len: "match_iso_date s = Some d \<Longrightarrow> d = take 10 s \<and> 10 \<le> length s"
  by (auto simp: match_iso_date_def split: if_splits)

lemma match_time_len: "match_time s = Some t \<Longrightarrow> t = take (length t) s \<and> 4 \<le> length t \<and> length t \<le> 5 \<and> length t \<le> length s"
  by (auto simp: match_time_def split: if_splits)

lemma match_symbol_len: "match_symbol syms s = Some n \<Longrightarrow> n \<le> length s"
proof -
  assume a: "match_symbol syms s = Some n"
  then obtain p ps where f: "filter (startsWith s) syms = p # ps" and n: "n = length p"
    by (auto simp: match_symbol_def split: list.splits)
  from f have "p \<in> set (filter (startsWith s) syms)" by simp
  then have "startsWith s p" by simp
  then have "take (length p) s = p" by (simp add: startsWith_iff)
  then have "length p \<le> length s"
    by (metis length_take min.cobounded1)
  with n show ?thesis by simp
qed

lemma startsWith_len: "startsWith s p \<Longrightarrow> length p \<le> length s"
  by (induction s p rule: startsWith.induct) auto

lemma match_ws_date_len:
  "match_ws_date s = Some (n, d) \<Longrightarrow> 10 \<le> n \<and> n \<le> length s"
proof -
  assume a: "match_ws_date s = Some (n, d)"
  define k where "k = length (takeWhile is_ws s)"
  from a have m: "match_iso_date (drop k s) = Some d" and n: "n = k + 10"
    by (auto simp: match_ws_date_def Let_def k_def split: option.splits)
  from match_iso_date_len [OF m] n show ?thesis by auto
qed

lemma match_ws_time_len:
  "match_ws_time s = Some (n, t) \<Longrightarrow> 5 \<le> n \<and> n \<le> length s"
proof -
  assume a: "match_ws_time s = Some (n, t)"
  define k where "k = length (takeWhile is_ws s)"
  from a have m: "match_time (drop k s) = Some t" and n: "n = k + length t" and k: "1 \<le> k"
    by (auto simp: match_ws_time_def Let_def k_def split: option.splits if_splits)
  from match_time_len [OF m] n k show ?thesis by auto
qed

lemma regex_match_at_len:
  "regex_match_at re s = Some (n, g1, g2) \<Longrightarrow> 0 < n \<and> n \<le> length s"
proof (cases re)
  case (EMOJI_DATE syms)
  assume a: "regex_match_at re s = Some (n, g1, g2)"
  from a EMOJI_DATE obtain n1 where n1: "match_symbol syms s = Some n1"
    by (auto split: option.splits)
  define n2 :: nat where "n2 = (if startsWith (drop n1 s) [65039] then 1 else 0)"
  from a EMOJI_DATE n1 obtain n3 d where d: "match_ws_date (drop (n1 + n2) s) = Some (n3, d)"
    by (auto simp: Let_def n2_def split: option.splits)
  have l1: "n1 \<le> length s" using n1 by (rule match_symbol_len)
  have l3: "10 \<le> n3 \<and> n3 \<le> length s - (n1 + n2)"
    using match_ws_date_len [OF d] by simp
  show ?thesis
  proof (cases "match_ws_time (drop (n1 + n2 + n3) s)")
    case None
    with a EMOJI_DATE n1 d have "n = n1 + n2 + n3"
      by (auto simp: Let_def n2_def)
    with l3 show ?thesis by auto
  next
    case (Some r)
    obtain n4 t where r: "r = (n4, t)" by (cases r) auto
    with Some a EMOJI_DATE n1 d have n: "n = n1 + n2 + n3 + n4"
      by (auto simp: Let_def n2_def)
    from match_ws_time_len [of "drop (n1 + n2 + n3) s" n4 t] Some r
    have "n4 \<le> length s - (n1 + n2 + n3)" by simp
    with n l3 show ?thesis by auto
  qed
next
  case SIMPLE_DATE_REGEX
  assume a: "regex_match_at re s = Some (n, g1, g2)"
  with SIMPLE_DATE_REGEX obtain k where m: "match_ws_date (drop 1 s) = Some (k, g1)" and n: "n = 1 + k"
    by (auto split: option.splits if_splits)
  from match_ws_date_len [OF m] n show ?thesis by auto
next
  case KANBAN_DATE_REGEX
  assume a: "regex_match_at re s = Some (n, g1, g2)"
  with KANBAN_DATE_REGEX have n: "n = 13" and st: "startsWith (drop 12 s) [125]"
    by (auto split: option.splits if_splits)
  from startsWith_len [OF st] n show ?thesis by simp
next
  case KANBAN_TIME_REGEX
  assume a: "regex_match_at re s = Some (n, g1, g2)"
  with KANBAN_TIME_REGEX have n: "n = 3 + length g1 + 1"
    and st: "startsWith (drop (3 + length g1) s) [125]"
    by (auto split: option.splits if_splits)
  from startsWith_len [OF st] n show ?thesis by simp
qed

lemma regex_exec_end: "length line < i \<Longrightarrow> regex_exec re line i = None"
  by (simp add: regex_exec.simps)

lemma regex_exec_hit:
  "i \<le> length line \<Longrightarrow> regex_match_at re (drop i line) = Some r \<Longrightarrow>
   regex_exec re line i = Some (i, r)"
  by (cases r) (simp add: regex_exec.simps [of re line i])

lemma regex_exec_miss:
  "i \<le> length line \<Longrightarrow> regex_match_at re (drop i line) = None \<Longrightarrow>
   regex_exec re line i = regex_exec re line (AdvanceStringIndex line i (unicode re))"
  by (simp add: regex_exec.simps [of re line i])

lemma AdvanceStringIndex_gt: "i < AdvanceStringIndex line i u"
  by (simp add: AdvanceStringIndex_def)

lemma regex_exec_SomeD:
  "regex_exec re line i = Some (j, n, g1, g2) \<Longrightarrow>
   i \<le> j \<and> j \<le> length line \<and> regex_match_at re (drop j line) = Some (n, g1, g2)"
proof (induction re line i rule: regex_exec.induct)
  case (1 re line lastIndex)
  show ?case
  proof (cases "regex_match_at re (drop lastIndex line)")
    case None
    with 1 AdvanceStringIndex_gt [of lastIndex line "unicode re"] show ?thesis
      by (auto simp: regex_exec.simps [of re line lastIndex] split: if_splits)
  next
    case (Some t)
    with 1 show ?thesis
      by (auto simp: regex_exec.simps [of re line lastIndex] split: if_splits prod.splits)
  qed
qed

lemma regex_exec_no_match:
  "(\<And>j. i \<le> j \<Longrightarrow> j \<le> length line \<Longrightarrow> regex_match_at re (drop j line) = None) \<Longrightarrow>
   regex_exec re line i = None"
proof (induction re line i rule: regex_exec.induct)
  case (1 re line lastIndex)
  show ?case
  proof (cases "lastIndex > length line")
    case True
    then show ?thesis by (simp add: regex_exec_end)
  next
    case False
    then have le: "lastIndex \<le> length line" by simp
    have none: "regex_match_at re (drop lastIndex line) = None"
      using 1(2) [of lastIndex] le by simp
    have "regex_exec re line (AdvanceStringIndex line lastIndex (unicode re)) = None"
    proof (rule 1(1) [OF False none])
      fix j
      assume "AdvanceStringIndex line lastIndex (unicode re) \<le> j" and "j \<le> length line"
      with AdvanceStringIndex_gt [of lastIndex line "unicode re"] 1(2) [of j]
      show "regex_match_at re (drop j line) = None" by simp
    qed
    with le none show ?thesis by (simp add: regex_exec_miss)
  qed
qed

lemma exec_all_Nil: "regex_exec re line i = None \<Longrightarrow> exec_all re line i = []"
  by (simp add: exec_all.simps [of re line i])

lemma exec_all_Cons:
  "regex_exec re line i = Some (j, n, g1, g2) \<Longrightarrow>
   exec_all re line i = (j, n, g1, g2) # exec_all re line (j + n)"
  by (simp add: exec_all.simps [of re line i])

lemma exec_all_bounds:
  "(j, n, g1, g2) \<in> set (exec_all re line i) \<Longrightarrow>
   i \<le> j \<and> 0 < n \<and> j + n \<le> length line \<and> regex_match_at re (drop j line) = Some (n, g1, g2)"
proof (induction re line i rule: exec_all.induct)
  case (1 re line lastIndex)
  show ?case
  proof (cases "regex_exec re line lastIndex")
    case None
    with 1(2) show ?thesis by (simp add: exec_all_Nil)
  next
    case (Some r)
    obtain j' n' a b where r: "r = (j', n', a, b)" by (cases r) auto
    from Some r have ex: "regex_exec re line lastIndex = Some (j', n', a, b)" by simp
    note d = regex_exec_SomeD [OF ex]
    from d have len: "0 < n' \<and> n' \<le> length line - j'"
      using regex_match_at_len [of re "drop j' line" n' a b] by simp
    from 1(2) ex have "(j, n, g1, g2) = (j', n', a, b) \<or> (j, n, g1, g2) \<in> set (exec_all re line (j' + n'))"
      by (simp add: exec_all_Cons)
    then show ?thesis
    proof
      assume "(j, n, g1, g2) = (j', n', a, b)"
      with d len show ?thesis by auto
    next
      assume "(j, n, g1, g2) \<in> set (exec_all re line (j' + n'))"
      from 1(1) [OF ex refl refl refl this] d show ?thesis by auto
    qed
  qed
qed

lemma startsWith_Cons_mem: "startsWith s (c # p) \<Longrightarrow> c \<in> set s"
  by (cases s) auto

lemma match_symbol_absent:
  assumes "\<And>p. p \<in> set syms \<Longrightarrow> p \<noteq> [] \<and> hd p \<notin> set s"
  shows "match_symbol syms s = None"
proof -
  have "filter (startsWith s) syms = []"
  proof (rule ccontr)
    assume "filter (startsWith s) syms \<noteq> []"
    then obtain p where p: "p \<in> set syms" "startsWith s p"
      by (auto simp: filter_empty_conv)
    from assms [OF p(1)] obtain c q where "p = c # q" "c \<notin> set s"
      by (cases p) auto
    with p(2) startsWith_Cons_mem [of s c q] show False by simp
  qed
  then show ?thesis by (simp add: match_symbol_def)
qed

lemma exec_all_emoji_absent:
  assumes "\<And>p. p \<in> set syms \<Longrightarrow> p \<noteq> [] \<and> hd p \<notin> set line"
  shows "exec_all (EMOJI_DATE syms) line i = []"
proof -
  have "regex_match_at (EMOJI_DATE syms) (drop j line) = None" for j
  proof -
    have "match_symbol syms (drop j line) = None"
      by (rule match_symbol_absent) (use assms in_set_dropD in fastforce)
    then show ?thesis by simp
  qed
  then have "regex_exec (EMOJI_DATE syms) line i = None"
    by (intro regex_exec_no_match)
  then show ?thesis by (rule exec_all_Nil)
qed

lemma regex_exec_at_absent:
  assumes "64 \<notin> set line" and "\<not> unicode re"
  shows "regex_exec re line i = None"
proof (rule regex_exec_no_match)
  fix j
  have n: "\<not> startsWith (drop j line) (64 # p)" for p
    using startsWith_Cons_mem [of "drop j line" 64 p] assms(1) in_set_dropD [of 64 j line]
    by blast
  show "regex_match_at re (drop j line) = None"
    using assms(2) n by (cases re) simp_all
qed

lemma exec_all_at_absent:
  "64 \<notin> set line \<Longrightarrow> \<not> unicode re \<Longrightarrow> exec_all re line i = []"
  by (rule exec_all_Nil) (rule regex_exec_at_absent)

lemma find_at_absent: "c \<notin> set s \<Longrightarrow> find_at (c # p) s i = None"
  by (induction s arbitrary: i) auto

lemma dataview_loop_absent:
  assumes "opn \<notin> set line"
  shows "dataview_loop opn cls line i = []"
proof -
  have "indexOf line [opn] i = None"
    unfolding indexOf_def using assms in_set_dropD [of opn i line]
    by (intro find_at_absent) blast
  then show ?thesis by (simp add: dataview_loop.simps [of opn cls line i])
qed

lemma dataview_loop_end: "\<not> i < length line \<Longrightarrow> dataview_loop opn cls line i = []"
  by (simp add: dataview_loop.simps [of opn cls line i])

lemma dataview_loop_step:
  "i < length line \<Longrightarrow> indexOf line [opn] i = Some j \<Longrightarrow>
   dataview_at opn cls line j = (r, n) \<Longrightarrow>
   dataview_loop opn cls line i =
     (case r of None \<Rightarrow> [] | Some f \<Rightarrow> [f]) @ dataview_loop opn cls line n"
  by (simp add: dataview_loop.simps [of opn cls line i] split: option.splits)

lemma extractEmojiDates_absent:
  assumes "\<forall>c \<in> set line. c < 8987"
  shows "extractEmojiDates line = []"
proof -
  have "exec_all (EMOJI_DATE syms) line 0 = []"
    if "\<And>p. p \<in> set syms \<Longrightarrow> p \<noteq> [] \<and> 8987 \<le> hd p" for syms
  proof (rule exec_all_emoji_absent)
    fix p
    assume "p \<in> set syms"
    from that [OF this] assms show "p \<noteq> [] \<and> hd p \<notin> set line" by force
  qed
  note h = this
  have "exec_all (EMOJI_DATE [[55357, 56517], [55357, 56518], [55357, 56787]]) line 0 = []"
    and "exec_all (EMOJI_DATE [[55357, 57067]]) line 0 = []"
    and "exec_all (EMOJI_DATE [[9203], [8987]]) line 0 = []"
    and "exec_all (EMOJI_DATE [[10133]]) line 0 = []"
    and "exec_all (EMOJI_DATE [[9989]]) line 0 = []"
    and "exec_all (EMOJI_DATE [[10060]]) line 0 = []"
    by (auto intro!: h)
  then show ?thesis
    unfolding extractEmojiDates_def EMOJI_DATE_PATTERNS_def list.map prod.case
    by (simp add: List.map_filter_def)
qed

lemma dataview_loop_none:
  "indexOf line [opn] i = None \<Longrightarrow> dataview_loop opn cls line i = []"
  by (simp add: dataview_loop.simps [of opn cls line i])

lemma AdvanceStringIndex_plain: "AdvanceStringIndex line i False = i + 1"
  by (simp add: AdvanceStringIndex_def)

lemma regex_exec_first:
  "\<not> unicode re \<Longrightarrow> regex_exec re line i = Some (j, n, g1, g2) \<Longrightarrow> i \<le> k \<Longrightarrow> k < j \<Longrightarrow>
   regex_match_at re (drop k line) = None"
proof (induction re line i rule: regex_exec.induct)
  case (1 re line lastIndex)
  from 1(3) have le: "lastIndex \<le> length line"
    by (cases "length line < lastIndex") (simp_all add: regex_exec_end)
  show ?case
  proof (cases "regex_match_at re (drop lastIndex line)")
    case (Some r)
    with 1(3) le regex_exec_hit [of lastIndex line re r] have "j = lastIndex" by simp
    with 1(4,5) show ?thesis by simp
  next
    case None
    with 1(2,3) le have nxt: "regex_exec re line (lastIndex + 1) = Some (j, n, g1, g2)"
      by (simp add: regex_exec_miss AdvanceStringIndex_plain)
    show ?thesis
    proof (cases "k = lastIndex")
      case True
      with None show ?thesis by simp
    next
      case False
      with 1(4) have "lastIndex + 1 \<le> k" by simp
      with 1(1) [of ] 1(2,5) le None nxt show ?thesis
        by (simp add: AdvanceStringIndex_plain)
    qed
  qed
qed

lemma regex_exec_NoneD:
  "\<not> unicode re \<Longrightarrow> regex_exec re line i = None \<Longrightarrow> i \<le> k \<Longrightarrow> k \<le> length line \<Longrightarrow>
   regex_match_at re (drop k line) = None"
proof (induction re line i rule: regex_exec.induct)
  case (1 re line lastIndex)
  from 1(4,5) have le: "lastIndex \<le> length line" by simp
  show ?case
  proof (cases "regex_match_at re (drop lastIndex line)")
    case (Some r)
    with 1(3) le regex_exec_hit [of lastIndex line re r] show ?thesis by simp
  next
    case None
    with 1(2,3) le have nxt: "regex_exec re line (lastIndex + 1) = None"
      by (simp add: regex_exec_miss AdvanceStringIndex_plain)
    show ?thesis
    proof (cases "k = lastIndex")
      case True
      with None show ?thesis by simp
    next
      case False
      with 1(4) have "lastIndex + 1 \<le> k" by simp
      with 1(1) 1(2,5) le None nxt show ?thesis
        by (simp add: AdvanceStringIndex_plain)
    qed
  qed
qed

lemma startsWith_nth: "startsWith s p \<Longrightarrow> i < length p \<Longrightarrow> s ! i = p ! i"
  by (induction s p arbitrary: i rule: startsWith.induct) (auto simp: nth_Cons split: nat.splits)

lemma kanban_date_shape:
  assumes "regex_match_at KANBAN_DATE_REGEX s = Some (n, g1, g2)"
  shows "n = 13 \<and> g1 = take 10 (drop 2 s) \<and> g2 = None \<and> 13 \<le> length s \<and> s ! 0 = 64 \<and>
         (\<forall>k. 1 \<le> k \<and> k < 13 \<longrightarrow> s ! k \<noteq> 64)"
proof -
  from assms have sw: "startsWith s [64, 123]"
    and iso: "match_iso_date (drop 2 s) = Some g1"
    and cl: "startsWith (drop 12 s) [125]"
    and n: "n = 13" "g2 = None"
    by (auto split: if_splits option.splits)
  from startsWith_nth [OF sw, of 0] startsWith_nth [OF sw, of 1]
  have h: "s ! 0 = 64" "s ! 1 = 123" by simp_all
  from startsWith_len [OF cl] have len: "13 \<le> length s" by simp
  from startsWith_nth [OF cl, of 0] len have c: "s ! 12 = 125" by simp
  from iso len have g: "g1 = take 10 (drop 2 s)"
    and d: "\<forall>k < 10. is_digit (s ! (2 + k)) \<or> s ! (2 + k) = 45"
    by (auto simp: match_iso_date_def less_Suc_eq numeral_nat(2-) split: if_splits)
  have "s ! k \<noteq> 64" if "1 \<le> k" "k < 13" for k
  proof (cases "k = 1 \<or> k = 12")
    case True
    with h c show ?thesis by auto
  next
    case False
    with that have "k - 2 < 10" "k = 2 + (k - 2)" by auto
    with d have "is_digit (s ! k) \<or> s ! k = 45" by metis
    then show ?thesis by (auto simp: is_digit_def)
  qed
  with n g len h show ?thesis by simp
qed

lemma kanban_date_no_overlap:
  assumes "regex_match_at KANBAN_DATE_REGEX (drop j line) = Some (n, g1, g2)"
    and "j < k" "k < j + 13"
  shows "regex_match_at KANBAN_DATE_REGEX (drop k line) = None"
proof (cases "regex_match_at KANBAN_DATE_REGEX (drop k line)")
  case None
  then show ?thesis .
next
  case (Some r)
  obtain n' a b where "r = (n', a, b)" by (cases r)
  with Some kanban_date_shape [of "drop k line" n' a b]
  have k: "13 \<le> length (drop k line)" "drop k line ! 0 = 64" by blast+
  from kanban_date_shape [OF assms(1)]
  have "\<forall>i. 1 \<le> i \<and> i < 13 \<longrightarrow> drop j line ! i \<noteq> 64" by blast
  moreover from assms(2,3) have "1 \<le> k - j \<and> k - j < 13" by arith
  ultimately have "drop j line ! (k - j) \<noteq> 64" by blast
  moreover from k assms(2) have "drop j line ! (k - j) = drop k line ! 0" by simp
  ultimately show ?thesis using k by simp
qed

lemma kanban_date_in_line:
  assumes "regex_match_at KANBAN_DATE_REGEX (drop k line) = Some (n, a, b)"
  shows "k + 13 \<le> length line"
proof -
  from kanban_date_shape [OF assms] have "13 \<le> length (drop k line)" by blast
  then show ?thesis by (simp del: regex_match_at.simps)
qed

lemma exec_all_complete:
  assumes "\<not> unicode re"
    and "\<And>j n g1 g2 k. regex_match_at re (drop j line) = Some (n, g1, g2) \<Longrightarrow> j < k \<Longrightarrow>
           k < j + n \<Longrightarrow> regex_match_at re (drop k line) = None"
  shows "regex_match_at re (drop k line) = Some r \<Longrightarrow> i \<le> k \<Longrightarrow> k \<le> length line \<Longrightarrow>
         (k, r) \<in> set (exec_all re line i)"
  using assms
proof (induction re line i rule: exec_all.induct)
  case (1 re line lastIndex)
  note hitk = \<open>regex_match_at re (drop k line) = Some r\<close>
  note plain = \<open>\<not> unicode re\<close>
  show ?case
  proof (cases "regex_exec re line lastIndex")
    case None
    from regex_exec_NoneD [OF plain None \<open>lastIndex \<le> k\<close> \<open>k \<le> length line\<close>] hitk
    show ?thesis by (simp del: regex_match_at.simps)
  next
    case (Some m)
    obtain j n g1 g2 where m: "m = (j, n, g1, g2)" by (cases m)
    from Some m have ex: "regex_exec re line lastIndex = Some (j, n, g1, g2)"
      by (simp del: regex_match_at.simps)
    from regex_exec_SomeD [OF ex]
    have hit: "regex_match_at re (drop j line) = Some (n, g1, g2)" by blast
    have all: "exec_all re line lastIndex = (j, n, g1, g2) # exec_all re line (j + n)"
      using ex by (rule exec_all_Cons)
    have "j \<le> k"
    proof (rule ccontr)
      assume "\<not> j \<le> k"
      then have "k < j" by simp
      from regex_exec_first [OF plain ex \<open>lastIndex \<le> k\<close> this] hitk
      show False by (simp del: regex_match_at.simps)
    qed
    show ?thesis
    proof (cases "k = j")
      case True
      with hit hitk all show ?thesis by (simp del: regex_match_at.simps)
    next
      case False
      with \<open>j \<le> k\<close> have "j < k" by simp
      have "j + n \<le> k"
      proof (rule ccontr)
        assume "\<not> j + n \<le> k"
        then have "k < j + n" by simp
        from "1.prems"(5) [OF hit \<open>j < k\<close> this] hitk show False
          by (simp del: regex_match_at.simps)
      qed
      have "(k, r) \<in> set (exec_all re line (j + n))"
        by (rule "1.IH" [OF Some m [symmetric] refl refl hitk \<open>j + n \<le> k\<close> \<open>k \<le> length line\<close> plain "1.prems"(5)])
      with all show ?thesis by simp
    qed
  qed
qed
section \<open>The fields of a line\<close>

lemma emoji_field_span:
  "(j, n, g1, g2) \<in> set (exec_all re line i) \<Longrightarrow> emoji_field ty line (j, n, g1, g2) = Some f \<Longrightarrow>
   span_ok line f"
  using exec_all_bounds [of j n g1 g2 re line i]
  by (auto simp: emoji_field_def span_ok_def split: option.splits)

lemma simple_field_span:
  "(j, n, g1, g2) \<in> set (exec_all re line i) \<Longrightarrow> simple_field line (j, n, g1, g2) = Some f \<Longrightarrow>
   span_ok line f"
  using exec_all_bounds [of j n g1 g2 re line i]
  by (auto simp: simple_field_def span_ok_def split: option.splits)

lemma kanban_field_span:
  "(j, n, g1, g2) \<in> set (exec_all re line i) \<Longrightarrow>
   kanban_field line b h mi (j, n, g1, g2) = Some f \<Longrightarrow> span_ok line f"
  using exec_all_bounds [of j n g1 g2 re line i]
  by (auto simp: kanban_field_def span_ok_def split: option.splits)

lemma set_map_filter: "set (List.map_filter g xs) = {y. \<exists>x \<in> set xs. g x = Some y}"
  by (induction xs) (auto simp: List.map_filter_def)

lemma extractEmojiDates_span: "f \<in> set (extractEmojiDates line) \<Longrightarrow> span_ok line f"
proof -
  assume "f \<in> set (extractEmojiDates line)"
  then obtain ty re x where "x \<in> set (exec_all re line 0)" "emoji_field ty line x = Some f"
    by (auto simp: extractEmojiDates_def set_map_filter)
  moreover obtain j n g1 g2 where "x = (j, n, g1, g2)" by (cases x)
  ultimately show ?thesis
    by (blast intro: emoji_field_span)
qed

lemma extractSimpleDates_span: "f \<in> set (extractSimpleDates line) \<Longrightarrow> span_ok line f"
proof -
  assume "f \<in> set (extractSimpleDates line)"
  then obtain x where "x \<in> set (exec_all SIMPLE_DATE_REGEX line 0)" "simple_field line x = Some f"
    by (auto simp: extractSimpleDates_def set_map_filter)
  moreover obtain j n g1 g2 where "x = (j, n, g1, g2)" by (cases x)
  ultimately show ?thesis
    by (blast intro: simple_field_span)
qed

lemma extractKanbanDates_span: "f \<in> set (extractKanbanDates line) \<Longrightarrow> span_ok line f"
proof -
  assume "f \<in> set (extractKanbanDates line)"
  then obtain x b h mi where "x \<in> set (exec_all KANBAN_DATE_REGEX line 0)"
    "kanban_field line b h mi x = Some f"
    by (auto simp: extractKanbanDates_def set_map_filter Let_def)
  moreover obtain j n g1 g2 where "x = (j, n, g1, g2)" by (cases x)
  ultimately show ?thesis
    by (blast intro: kanban_field_span)
qed

lemma find_at_bounds: "find_at pat s i = Some j \<Longrightarrow> i \<le> j \<and> j < i + length s"
proof (induction s arbitrary: i)
  case Nil
  then show ?case by simp
next
  case (Cons c cs)
  show ?case
  proof (cases "startsWith (c # cs) pat")
    case True
    with Cons.prems show ?thesis by simp
  next
    case False
    with Cons.prems have "find_at pat cs (Suc i) = Some j" by simp
    from Cons.IH [OF this] show ?thesis by simp
  qed
qed

lemma indexOf_bounds: "indexOf line pat i = Some j \<Longrightarrow> i \<le> j \<and> j < length line"
  using find_at_bounds [of pat "drop i line" i j] by (auto simp: indexOf_def)

lemma closing_loop_bounds:
  "closing_loop opn cls s i n e = Some j \<Longrightarrow> i \<le> j \<and> j < i + length s"
  by (induction opn cls s i n e rule: closing_loop.induct) (auto simp: Let_def split: if_splits)

lemma findClosingBracket_bounds:
  "findClosingBracket line v opn cls = Some (x, e) \<Longrightarrow> v < e \<and> e \<le> length line"
  using closing_loop_bounds [of opn cls "drop v line" v 0 False]
  by (auto simp: findClosingBracket_def split: option.splits)

lemma findDataviewSeparator_bounds:
  "findDataviewSeparator line i = Some (k, v) \<Longrightarrow> i + 2 \<le> v"
  using indexOf_bounds [of line "[58, 58]" i]
  by (auto simp: findDataviewSeparator_def split: option.splits)


lemma dataview_at_span:
  assumes "dataview_at opn cls line j = (Some f, n)"
  shows "span_ok line f \<and> start f = j \<and> end' f = n"
proof -
  from assms obtain key v where sep: "findDataviewSeparator line (j + 1) = Some (key, v)"
    by (auto simp: dataview_at_def split: option.splits)
  with assms obtain x e where br: "findClosingBracket line v opn cls = Some (x, e)"
    by (auto simp: dataview_at_def split: option.splits if_splits)
  from findDataviewSeparator_bounds [OF sep] findClosingBracket_bounds [OF br]
  have b: "j < e" "e \<le> length line" by auto
  from assms sep br have "start f = j \<and> end' f = e \<and> n = e \<and> raw f = substring line j e"
    by (auto simp: dataview_at_def split: option.splits if_splits)
  with b show ?thesis
    by (auto simp: span_ok_def substring_def max_def min_def)
qed

lemma dataview_loop_span: "f \<in> set (dataview_loop opn cls line i) \<Longrightarrow> span_ok line f"
proof (induction opn cls line i rule: dataview_loop.induct)
  case (1 opn cls line searchIndex)
  note simps = dataview_loop.simps [of opn cls line searchIndex]
  show ?case
  proof (cases "searchIndex < length line")
    case False
    with "1.prems" show ?thesis by (simp add: simps)
  next
    case lt: True
    show ?thesis
    proof (cases "indexOf line [opn] searchIndex")
      case None
      with "1.prems" lt show ?thesis
        by (simp add: simps)
    next
      case found: (Some foundIndex)
      obtain r nextIndex where dv: "dataview_at opn cls line foundIndex = (r, nextIndex)"
        by (cases "dataview_at opn cls line foundIndex")
      show ?thesis
      proof (cases r)
        case None
        with "1.prems" lt found dv
        have "f \<in> set (dataview_loop opn cls line nextIndex)"
          by (simp add: simps)
        with "1.IH"(1) [of foundIndex r nextIndex] lt found dv None
        show ?thesis by simp
      next
        case pushed: (Some g)
        with "1.prems" lt found dv
        have "f = g \<or> f \<in> set (dataview_loop opn cls line nextIndex)"
          by (simp add: simps)
        then show ?thesis
        proof
          assume "f = g"
          with dataview_at_span [of opn cls line foundIndex g nextIndex] dv pushed
          show ?thesis by simp
        next
          assume "f \<in> set (dataview_loop opn cls line nextIndex)"
          with "1.IH"(2) [of foundIndex r nextIndex g] lt found dv pushed
          show ?thesis by simp
        qed
      qed
    qed
  qed
qed

lemma extractDataviewDates_span: "f \<in> set (extractDataviewDates line) \<Longrightarrow> span_ok line f"
  by (auto simp: extractDataviewDates_def dest: dataview_loop_span)

lemma collect_dates_span: "f \<in> set (collect_dates line formatFilter) \<Longrightarrow> span_ok line f"
  by (auto simp: collect_dates_def split: if_splits
      dest: extractEmojiDates_span extractDataviewDates_span extractSimpleDates_span
        extractKanbanDates_span)

lemma foldl_push_non_overlapping:
  "foldl push_non_overlapping acc ds =
     acc @ keep_from (if acc = [] then None else Some (last acc)) ds"
  by (induction ds arbitrary: acc) (auto simp: push_non_overlapping_def)

lemma keep_from_subset: "set (keep_from l ds) \<subseteq> set ds"
  by (induction ds arbitrary: l) auto

lemma keep_from_sorted:
  "sorted (map start ds) \<Longrightarrow> sorted (map start (keep_from l ds))"
proof (induction ds arbitrary: l)
  case Nil
  show ?case by simp
next
  case (Cons d ds)
  from Cons.prems have "\<forall>x \<in> set (keep_from (Some d) ds). start d \<le> start x"
    using keep_from_subset [of "Some d" ds] by auto
  with Cons show ?case by auto
qed

lemma keep_from_after:
  "sorted (map start ds) \<Longrightarrow> x \<in> set (keep_from (Some k) ds) \<Longrightarrow> end' k \<le> start x"
proof (induction ds arbitrary: k)
  case Nil
  then show ?case by simp
next
  case (Cons d ds)
  show ?case
  proof (cases "end' k \<le> start d")
    case True
    with Cons.prems have "x = d \<or> x \<in> set (keep_from (Some d) ds)" by simp
    then show ?thesis
    proof
      assume "x = d" with True show ?thesis by simp
    next
      assume "x \<in> set (keep_from (Some d) ds)"
      with keep_from_subset [of "Some d" ds] have "x \<in> set ds" by auto
      with Cons.prems(1) have "start d \<le> start x" by auto
      with True show ?thesis by simp
    qed
  next
    case False
    with Cons.prems have "x \<in> set (keep_from (Some k) ds)" by simp
    with Cons.IH [of k] Cons.prems(1) show ?thesis by simp
  qed
qed

lemma keep_from_non_overlapping:
  "sorted (map start ds) \<Longrightarrow> sorted_wrt (\<lambda>a b. end' a \<le> start b) (keep_from l ds)"
proof (induction ds arbitrary: l)
  case Nil
  show ?case by simp
next
  case (Cons d ds)
  then show ?case
    using keep_from_after [of ds _ d] by auto
qed

lemma extractAllDates_keep_from:
  "extractAllDates line formatFilter =
     keep_from None (sort_key start (collect_dates line formatFilter))"
  by (simp add: extractAllDates_def foldl_push_non_overlapping)

lemma extractAllDates_span: "f \<in> set (extractAllDates line formatFilter) \<Longrightarrow> span_ok line f"
  using keep_from_subset [of None "sort_key start (collect_dates line formatFilter)"]
  by (auto simp: extractAllDates_keep_from dest: collect_dates_span)

lemma extractAllDates_sorted: "sorted (map start (extractAllDates line formatFilter))"
  by (simp add: extractAllDates_keep_from keep_from_sorted)

lemma extractAllDates_disjoint:
  "sorted_wrt (\<lambda>a b. end' a \<le> start b) (extractAllDates line formatFilter)"
  by (simp add: extractAllDates_keep_from keep_from_non_overlapping)

lemma chars_outside_append:
  "chars_outside ds i (a @ b) = chars_outside ds i a @ chars_outside ds (i + length a) b"
  by (induction a arbitrary: i) auto

lemma chars_outside_all:
  "(\<And>k. k < length s \<Longrightarrow> \<not> list_ex (in_span (i + k)) ds) \<Longrightarrow> chars_outside ds i s = s"
proof (induction s arbitrary: i)
  case Nil
  show ?case by simp
next
  case (Cons c cs)
  from Cons.prems [of 0] have "\<not> list_ex (in_span i) ds" by simp
  moreover have "chars_outside ds (Suc i) cs = cs"
  proof (rule Cons.IH)
    fix k assume "k < length cs"
    with Cons.prems [of "Suc k"] show "\<not> list_ex (in_span (Suc i + k)) ds" by simp
  qed
  ultimately show ?case by simp
qed

lemma chars_outside_none:
  "(\<And>k. k < length s \<Longrightarrow> list_ex (in_span (i + k)) ds) \<Longrightarrow> chars_outside ds i s = []"
proof (induction s arbitrary: i)
  case Nil
  show ?case by simp
next
  case (Cons c cs)
  from Cons.prems [of 0] have "list_ex (in_span i) ds" by simp
  moreover have "chars_outside ds (Suc i) cs = []"
  proof (rule Cons.IH)
    fix k assume "k < length cs"
    with Cons.prems [of "Suc k"] show "list_ex (in_span (Suc i + k)) ds" by simp
  qed
  ultimately show ?case by simp
qed

lemma chars_outside_cong:
  "(\<And>k. k < length s \<Longrightarrow> list_ex (in_span (i + k)) fs = list_ex (in_span (i + k)) gs) \<Longrightarrow>
   chars_outside fs i s = chars_outside gs i s"
proof (induction s arbitrary: i)
  case Nil
  show ?case by simp
next
  case (Cons c cs)
  from Cons.prems [of 0] have "list_ex (in_span i) fs = list_ex (in_span i) gs" by simp
  moreover have "chars_outside fs (Suc i) cs = chars_outside gs (Suc i) cs"
  proof (rule Cons.IH)
    fix k assume "k < length cs"
    with Cons.prems [of "Suc k"]
    show "list_ex (in_span (Suc i + k)) fs = list_ex (in_span (Suc i + k)) gs" by simp
  qed
  ultimately show ?case by simp
qed

lemma remove_from_end:
  assumes "sorted_wrt (\<lambda>a b. end' a \<le> start b) ds"
    and "\<And>d. d \<in> set ds \<Longrightarrow> start d \<le> end' d \<and> end' d \<le> length line"
    and "\<And>d. d \<in> set ds \<Longrightarrow> e \<le> start d"
  shows "foldr (\<lambda>d result. take (start d) result @ drop (end' d) result) ds line =
         take e line @ chars_outside ds e (drop e line)"
  using assms
proof (induction ds arbitrary: e)
  case Nil
  have "chars_outside [] e (drop e line) = drop e line"
    by (rule chars_outside_all) simp
  then show ?case by simp
next
  case (Cons d rest)
  let ?f = "\<lambda>d result. take (start d) result @ drop (end' d) result"
  from Cons.prems have d: "e \<le> start d" "start d \<le> end' d" "end' d \<le> length line"
    and after: "\<And>r. r \<in> set rest \<Longrightarrow> end' d \<le> start r"
    by auto
  have R: "foldr ?f rest line =
      take (end' d) line @ chars_outside rest (end' d) (drop (end' d) line)"
    using Cons.prems after by (intro Cons.IH) auto
  have len: "length (take (end' d) line) = end' d" using d by simp
  have 1: "take (start d) (foldr ?f rest line) = take (start d) line"
    using d len by (simp add: R min_def)
  have 2: "drop (end' d) (foldr ?f rest line) = chars_outside rest (end' d) (drop (end' d) line)"
    using len by (simp add: R)
  have split: "drop e line =
      take (start d - e) (drop e line) @ take (end' d - start d) (drop (start d) line) @
      drop (end' d) line"
  proof -
    have "drop e line = take (start d - e) (drop e line) @ drop (start d - e) (drop e line)"
      by (rule append_take_drop_id [symmetric])
    also have "drop (start d - e) (drop e line) = drop (start d) line"
      using d by simp
    also have "drop (start d) line =
        take (end' d - start d) (drop (start d) line) @ drop (end' d - start d) (drop (start d) line)"
      by (rule append_take_drop_id [symmetric])
    also have "drop (end' d - start d) (drop (start d) line) = drop (end' d) line"
      using d by simp
    finally show ?thesis .
  qed
  have l1: "length (take (start d - e) (drop e line)) = start d - e" using d by simp
  have l2: "length (take (end' d - start d) (drop (start d) line)) = end' d - start d"
    using d by simp
  have a: "chars_outside (d # rest) e (take (start d - e) (drop e line)) =
      take (start d - e) (drop e line)"
  proof (rule chars_outside_all)
    fix k assume "k < length (take (start d - e) (drop e line))"
    with l1 have "e + k < start d" by simp
    with after d show "\<not> list_ex (in_span (e + k)) (d # rest)"
      by (fastforce simp: list_ex_iff in_span_def)
  qed
  have b: "chars_outside (d # rest) (start d)
      (take (end' d - start d) (drop (start d) line)) = []"
  proof (rule chars_outside_none)
    fix k assume "k < length (take (end' d - start d) (drop (start d) line))"
    with l2 have "start d + k < end' d" by simp
    then show "list_ex (in_span (start d + k)) (d # rest)"
      by (simp add: in_span_def)
  qed
  have c: "chars_outside (d # rest) (end' d) (drop (end' d) line) =
      chars_outside rest (end' d) (drop (end' d) line)"
  proof (rule chars_outside_cong)
    fix k
    show "list_ex (in_span (end' d + k)) (d # rest) = list_ex (in_span (end' d + k)) rest"
      by (simp add: in_span_def)
  qed
  have "chars_outside (d # rest) e (drop e line) =
      take (start d - e) (drop e line) @ chars_outside rest (end' d) (drop (end' d) line)"
    using d by (subst split) (simp add: chars_outside_append l1 l2 a b c del: chars_outside.simps)
  moreover have "take e line @ take (start d - e) (drop e line) = take (start d) line"
    using d by (metis add_diff_inverse_nat not_less take_add)
  ultimately show ?case
    by (simp add: 1 2)
qed

lemma stripDates_remove_spans:
  "foldr (\<lambda>d result. take (start d) result @ drop (end' d) result)
     (extractAllDates line formatFilter) line =
   remove_spans (extractAllDates line formatFilter) line"
proof -
  have "foldr (\<lambda>d result. take (start d) result @ drop (end' d) result)
      (extractAllDates line formatFilter) line =
    take 0 line @ chars_outside (extractAllDates line formatFilter) 0 (drop 0 line)"
  proof (rule remove_from_end)
    show "sorted_wrt (\<lambda>a b. end' a \<le> start b) (extractAllDates line formatFilter)"
      by (rule extractAllDates_disjoint)
  next
    fix d assume "d \<in> set (extractAllDates line formatFilter)"
    from extractAllDates_span [OF this]
    show "start d \<le> end' d \<and> end' d \<le> length line" by (simp add: span_ok_def)
  qed simp
  then show ?thesis by (simp add: remove_spans_def)
qed

lemma is_ws_space: "is_ws 32"
  by (simp add: is_ws_def)

lemma collapse_ws_word:
  "\<forall>x \<in> set w. \<not> is_ws x \<Longrightarrow> collapse_ws (w @ r) = w @ collapse_ws r"
  by (induction w) auto

lemma collapse_ws_blank:
  "is_ws c \<Longrightarrow> collapse_ws (c # cs) = 32 # collapse_ws (dropWhile is_ws cs)"
  by simp

lemma collapse_ws_Nil_iff: "collapse_ws s = [] \<longleftrightarrow> s = []"
  by (cases s) auto

lemma collapse_ws_hd: "s \<noteq> [] \<Longrightarrow> \<not> is_ws (hd s) \<Longrightarrow> hd (collapse_ws s) = hd s"
  by (cases s) auto

lemma trimStart_collapse_ws: "trimStart (collapse_ws s) = collapse_ws (dropWhile is_ws s)"
proof (cases s)
  case Nil
  then show ?thesis by (simp add: trimStart_def)
next
  case (Cons c cs)
  show ?thesis
  proof (cases "is_ws c")
    case False
    with Cons show ?thesis by (simp add: trimStart_def)
  next
    case True
    define t where "t = dropWhile is_ws cs"
    have "dropWhile is_ws (collapse_ws t) = collapse_ws t"
    proof (cases t)
      case Nil
      then show ?thesis by simp
    next
      case (Cons d ds)
      then have "\<not> is_ws d"
        unfolding t_def by (metis hd_dropWhile list.distinct(1) list.sel(1))
      with Cons show ?thesis by simp
    qed
    with True Cons show ?thesis by (simp add: trimStart_def is_ws_space t_def)
  qed
qed

lemma trimEnd_append:
  "trimEnd (a @ x) = (if trimEnd x = [] then trimEnd a else a @ trimEnd x)"
  by (auto simp: trimEnd_def dropWhile_append)

lemma trimEnd_word: "w \<noteq> [] \<Longrightarrow> \<not> is_ws (last w) \<Longrightarrow> trimEnd w = w"
  by (cases w rule: rev_cases) (auto simp: trimEnd_def)

lemma trimEnd_Nil_iff: "trimEnd x = [] \<longleftrightarrow> (\<forall>c \<in> set x. is_ws c)"
  by (auto simp: trimEnd_def dropWhile_eq_Nil_conv)


lemma ws_words_Nil: "dropWhile is_ws s = [] \<Longrightarrow> ws_words s = []"
  by (simp add: ws_words.simps [of s] del: dropWhile_eq_Nil_conv)

lemma ws_words_Cons:
  "dropWhile is_ws s = c # cs \<Longrightarrow>
   ws_words s =
     takeWhile (\<lambda>x. \<not> is_ws x) (c # cs) # ws_words (dropWhile (\<lambda>x. \<not> is_ws x) (c # cs))"
  by (simp add: ws_words.simps [of s])

lemma join_words_Cons_nonempty: "w \<noteq> [] \<Longrightarrow> join_words (w # ws) \<noteq> []"
  by (cases ws) auto

lemma ws_words_nonempty: "w \<in> set (ws_words s) \<Longrightarrow> w \<noteq> []"
proof (induction s rule: ws_words.induct)
  case (1 s)
  show ?case
  proof (cases "dropWhile is_ws s")
    case Nil
    with "1.prems" show ?thesis by (simp add: ws_words_Nil del: dropWhile_eq_Nil_conv)
  next
    case (Cons c cs)
    then have c: "\<not> is_ws c" by (metis hd_dropWhile list.distinct(1) list.sel(1))
    from "1.prems" ws_words_Cons [OF Cons]
    have "w = takeWhile (\<lambda>x. \<not> is_ws x) (c # cs) \<or>
        w \<in> set (ws_words (dropWhile (\<lambda>x. \<not> is_ws x) (c # cs)))"
      by simp
    then show ?thesis
    proof
      assume "w = takeWhile (\<lambda>x. \<not> is_ws x) (c # cs)"
      with c show ?thesis by simp
    next
      assume "w \<in> set (ws_words (dropWhile (\<lambda>x. \<not> is_ws x) (c # cs)))"
      with "1.IH" [OF Cons] show ?thesis by simp
    qed
  qed
qed

lemma trimEnd_collapse_ws:
  "trimEnd (collapse_ws (dropWhile is_ws s)) = join_words (ws_words s)"
proof (induction s rule: ws_words.induct)
  case (1 s)
  show ?case
  proof (cases "dropWhile is_ws s")
    case Nil
    then show ?thesis by (simp add: ws_words_Nil trimEnd_def del: dropWhile_eq_Nil_conv)
  next
    case (Cons c cs)
    then have c: "\<not> is_ws c" by (metis hd_dropWhile list.distinct(1) list.sel(1))
    define w where "w = takeWhile (\<lambda>x. \<not> is_ws x) (c # cs)"
    define r where "r = dropWhile (\<lambda>x. \<not> is_ws x) (c # cs)"
    have t: "c # cs = w @ r" by (simp add: w_def r_def)
    have w: "w \<noteq> []" "\<forall>x \<in> set w. \<not> is_ws x"
      using c by (auto simp: w_def dest: set_takeWhileD)
    then have lw: "\<not> is_ws (last w)" by simp
    have words: "ws_words s = w # ws_words r"
      using ws_words_Cons [OF Cons] by (simp add: w_def r_def)
    have IH: "trimEnd (collapse_ws (dropWhile is_ws r)) = join_words (ws_words r)"
      using "1.IH" [OF Cons] by (simp add: r_def)
    have col: "collapse_ws (c # cs) = w @ collapse_ws r"
      unfolding t using w(2) by (rule collapse_ws_word)
    show ?thesis
    proof (cases r)
      case Nil
      then have "ws_words r = []" by (simp add: ws_words_Nil)
      with Nil Cons col words w lw show ?thesis
        by (simp add: trimEnd_word)
    next
      case r: (Cons d ds)
      have d: "is_ws d"
        using r hd_dropWhile [of "\<lambda>x. \<not> is_ws x" "c # cs"] by (simp add: r_def)
      define X where "X = collapse_ws (dropWhile is_ws r)"
      have cr: "collapse_ws r = [32] @ X"
        using r d by (simp add: X_def)
      have e32: "trimEnd [32] = []" by (simp add: trimEnd_def is_ws_space)
      have tw: "trimEnd (w @ [32]) = w"
        using w lw by (simp add: trimEnd_append e32 trimEnd_word)
      have all: "collapse_ws (dropWhile is_ws s) = (w @ [32]) @ X"
        by (simp only: Cons col cr append_assoc)
      show ?thesis
      proof (cases "ws_words r")
        case Nil
        with IH have "trimEnd X = []" by (simp add: X_def)
        with all tw words Nil show ?thesis by (simp only: trimEnd_append) simp
      next
        case v: (Cons v vs)
        from ws_words_nonempty [of v r] v have "v \<noteq> []" by simp
        then have "join_words (v # vs) \<noteq> []" by (rule join_words_Cons_nonempty)
        with IH v have ne: "trimEnd X \<noteq> []" and eq: "trimEnd X = join_words (v # vs)"
          by (simp_all add: X_def)
        have "trimEnd ((w @ [32]) @ X) = (w @ [32]) @ trimEnd X"
          using ne by (simp only: trimEnd_append if_False)
        with all words v eq show ?thesis by simp
      qed
    qed
  qed
qed

lemma trim_collapse_ws: "trim (collapse_ws s) = join_words (ws_words s)"
  by (simp add: trim_def trimStart_collapse_ws trimEnd_collapse_ws)
section \<open>Properties of the calendar arithmetic\<close>

lemma ceil_div:
  fixes y n :: int
  assumes "0 < n"
  shows "(y + (n - 1)) div n = y div n + (if y mod n = 0 then 0 else 1)"
proof -
  define q where "q = y div n"
  define r where "r = y mod n"
  have y: "y = r + q * n" by (simp add: q_def r_def)
  have r: "0 \<le> r" "r < n" using assms by (simp_all add: r_def)
  have "(y + (n - 1)) div n = (r + (n - 1) + q * n) div n"
    by (simp add: y algebra_simps)
  also have "\<dots> = (r + (n - 1)) div n + q"
    using assms by simp
  also have "(r + (n - 1)) div n = (if r = 0 then 0 else 1)"
  proof (cases "r = 0")
    case True
    then show ?thesis using assms by (simp add: div_pos_pos_trivial)
  next
    case False
    with r have "0 \<le> r - 1" "r - 1 < n" by simp_all
    then have z: "(r - 1) div n = 0" by (simp add: div_pos_pos_trivial)
    have e: "r + (n - 1) = (r - 1) + n" by simp
    have "(r + (n - 1)) div n = (r - 1) div n + 1"
      unfolding e by (rule div_add_self2) (use assms in simp)
    with z have "(r + (n - 1)) div n = 1" by simp
    with False show ?thesis by simp
  qed
  finally show ?thesis by (simp add: q_def r_def)
qed

lemma leap_count_step:
  fixes y a b c :: int
  assumes "p400 \<Longrightarrow> p100" and "p100 \<Longrightarrow> p4"
  shows "365 * (y + 1) + (a + 1) - (b + 1) + (c + 1) =
         365 * y + (a + (if p4 then 0 else 1)) - (b + (if p100 then 0 else 1))
           + (c + (if p400 then 0 else 1))
           + (if (p4 \<and> \<not> p100) \<or> p400 then 366 else 365)"
  using assms by auto

lemma days_before_year_Suc:
  "days_before_year (y + 1) = days_before_year y + (if isLeapYear y then 366 else 365)"
proof -
  have a: "(y + 1 + 3) div 4 = y div 4 + 1" "(y + 1 + 99) div 100 = y div 100 + 1"
    "(y + 1 + 399) div 400 = y div 400 + 1"
    by simp_all
  have b4: "(y + 3) div 4 = y div 4 + (if y mod 4 = 0 then 0 else 1)"
  proof -
    have "(y + 3) div 4 = (y + (4 - 1)) div 4" by simp
    also have "\<dots> = y div 4 + (if y mod 4 = 0 then 0 else 1)" by (rule ceil_div) simp
    finally show ?thesis .
  qed
  have b100: "(y + 99) div 100 = y div 100 + (if y mod 100 = 0 then 0 else 1)"
  proof -
    have "(y + 99) div 100 = (y + (100 - 1)) div 100" by simp
    also have "\<dots> = y div 100 + (if y mod 100 = 0 then 0 else 1)" by (rule ceil_div) simp
    finally show ?thesis .
  qed
  have b400: "(y + 399) div 400 = y div 400 + (if y mod 400 = 0 then 0 else 1)"
  proof -
    have "(y + 399) div 400 = (y + (400 - 1)) div 400" by simp
    also have "\<dots> = y div 400 + (if y mod 400 = 0 then 0 else 1)" by (rule ceil_div) simp
    finally show ?thesis .
  qed
  have c: "y mod 400 = 0 \<Longrightarrow> y mod 100 = 0" "y mod 100 = 0 \<Longrightarrow> y mod 4 = 0"
    using mod_mod_cancel [of 100 400 y] mod_mod_cancel [of 4 100 y] by simp_all
  show ?thesis
    unfolding days_before_year_def isLeapYear_def a b4 b100 b400
    by (rule leap_count_step) (erule c)+
qed

lemma upt_1_13: "[Suc 0..<13] = [1, 2, 3, 4, 5, 6, 7, 8, 9, 10, 11, 12]"
  by (simp add: upt_rec)

lemma days_before_month_1: "days_before_month y (Suc 0) = 0"
  by (simp add: days_before_month_def)

lemma days_before_month_Suc:
  "1 \<le> m \<Longrightarrow> days_before_month y (Suc m) = days_before_month y m + daysInMonth y m"
  by (simp add: days_before_month_def)

lemma days_before_month_13: "days_before_month y 13 = (if isLeapYear y then 366 else 365)"
  by (simp add: days_before_month_def upt_1_13 daysInMonth_def)

lemma days_before_month_12:
  "int (days_before_month y 12) + 31 = (if isLeapYear y then 366 else 365)"
proof -
  have "days_before_month y (Suc 12) = days_before_month y 12 + daysInMonth y 12"
    by (rule days_before_month_Suc) simp
  then have "days_before_month y 12 + 31 = (if isLeapYear y then 366 else 365)"
    by (simp add: days_before_month_13 daysInMonth_def)
  then have "int (days_before_month y 12 + 31) = int (if isLeapYear y then 366 else 365)"
    by (rule arg_cong)
  then show ?thesis by (simp split: if_splits)
qed

lemma daysInMonth_pos: "1 \<le> daysInMonth y m"
  by (simp add: daysInMonth_def)

lemma next_day_time [simp]:
  "hour (next_day m) = hour m" "minute (next_day m) = minute m"
  "second (next_day m) = second m" "millisecond (next_day m) = millisecond m"
  by (simp_all add: next_day_def)

lemma prev_day_time [simp]:
  "hour (prev_day m) = hour m" "minute (prev_day m) = minute m"
  "second (prev_day m) = second m" "millisecond (prev_day m) = millisecond m"
  by (simp_all add: prev_day_def)

lemma valid_next_day:
  assumes "valid_moment m"
  shows "valid_moment (next_day m)"
proof -
  from assms have v: "1 \<le> month m" "month m \<le> 12" "1 \<le> day m"
    "day m \<le> daysInMonth (year m) (month m)" "hour m < 24" "minute m < 60" "second m < 60"
    "millisecond m < 1000"
    by (simp_all add: valid_moment_def)
  show ?thesis
  proof (cases "day m < daysInMonth (year m) (month m)")
    case True
    then have "next_day m = m\<lparr>day := day m + 1\<rparr>" by (simp add: next_day_def)
    with True v show ?thesis by (auto simp: valid_moment_def)
  next
    case False
    show ?thesis
    proof (cases "month m < 12")
      case True
      with False have "next_day m = m\<lparr>month := month m + 1, day := 1\<rparr>"
        by (simp add: next_day_def)
      with True v daysInMonth_pos [of "year m" "month m + 1"] show ?thesis
        by (auto simp: valid_moment_def)
    next
      case c: False
      with False have "next_day m = m\<lparr>year := year m + 1, month := 1, day := 1\<rparr>"
        by (simp add: next_day_def)
      with v daysInMonth_pos [of "year m + 1" 1] show ?thesis
        by (auto simp: valid_moment_def)
    qed
  qed
qed

lemma valid_prev_day:
  assumes "valid_moment m"
  shows "valid_moment (prev_day m)"
proof -
  from assms have v: "1 \<le> month m" "month m \<le> 12" "1 \<le> day m"
    "day m \<le> daysInMonth (year m) (month m)" "hour m < 24" "minute m < 60" "second m < 60"
    "millisecond m < 1000"
    by (simp_all add: valid_moment_def)
  show ?thesis
  proof (cases "1 < day m")
    case True
    then have "prev_day m = m\<lparr>day := day m - 1\<rparr>" by (simp add: prev_day_def)
    with True v show ?thesis by (auto simp: valid_moment_def)
  next
    case False
    show ?thesis
    proof (cases "1 < month m")
      case True
      with False have "prev_day m =
          m\<lparr>month := month m - 1, day := daysInMonth (year m) (month m - 1)\<rparr>"
        by (simp add: prev_day_def)
      with True v daysInMonth_pos [of "year m" "month m - 1"] show ?thesis
        by (auto simp: valid_moment_def)
    next
      case c: False
      with False have "prev_day m = m\<lparr>year := year m - 1, month := 12, day := 31\<rparr>"
        by (simp add: prev_day_def)
      with v show ?thesis
        by (auto simp: valid_moment_def daysInMonth_def)
    qed
  qed
qed

lemma day_number_next_day:
  assumes "valid_moment m"
  shows "day_number (next_day m) = day_number m + 1"
proof -
  from assms have v: "1 \<le> month m" "month m \<le> 12" "1 \<le> day m"
    "day m \<le> daysInMonth (year m) (month m)"
    by (auto simp: valid_moment_def)
  show ?thesis
  proof (cases "day m < daysInMonth (year m) (month m)")
    case True
    then show ?thesis by (simp add: next_day_def day_number_def)
  next
    case False
    with v have d: "day m = daysInMonth (year m) (month m)" by simp
    show ?thesis
    proof (cases "month m < 12")
      case True
      with False d v days_before_month_Suc [of "month m" "year m"] show ?thesis
        by (simp add: next_day_def day_number_def)
    next
      case False
      with v have m12: "month m = 12" by simp
      with d have d31: "day m = 31" by (simp add: daysInMonth_def)
      from m12 d31 have n: "next_day m = m\<lparr>year := year m + 1, month := 1, day := 1\<rparr>"
        by (simp add: next_day_def daysInMonth_def)
      have "day_number (next_day m) = days_before_year (year m + 1)"
        unfolding n by (simp add: day_number_def days_before_month_1)
      also have "\<dots> = days_before_year (year m) + (int (days_before_month (year m) 12) + 31)"
        by (simp only: days_before_year_Suc days_before_month_12)
      also have "\<dots> = day_number m + 1"
        using m12 d31 by (simp add: day_number_def)
      finally show ?thesis .
    qed
  qed
qed

lemma day_number_prev_day:
  assumes "valid_moment m"
  shows "day_number (prev_day m) = day_number m - 1"
proof -
  from assms have v: "1 \<le> month m" "month m \<le> 12" "1 \<le> day m"
    "day m \<le> daysInMonth (year m) (month m)"
    by (auto simp: valid_moment_def)
  show ?thesis
  proof (cases "1 < day m")
    case True
    then show ?thesis by (simp add: prev_day_def day_number_def)
  next
    case False
    with v have d: "day m = 1" by simp
    show ?thesis
    proof (cases "1 < month m")
      case True
      with days_before_month_Suc [of "month m - 1" "year m"] d show ?thesis
        by (simp add: prev_day_def day_number_def)
    next
      case False
      with v have m1: "month m = 1" by simp
      from m1 d have p: "prev_day m = m\<lparr>year := year m - 1, month := 12, day := 31\<rparr>"
        by (simp add: prev_day_def)
      have "day_number m = days_before_year (year m - 1 + 1)"
        using m1 d by (simp add: day_number_def days_before_month_1)
      also have "\<dots> = days_before_year (year m - 1) +
          (int (days_before_month (year m - 1) 12) + 31)"
        by (simp only: days_before_year_Suc days_before_month_12)
      also have "\<dots> = day_number (prev_day m) + 1"
        unfolding p by (simp add: day_number_def)
      finally show ?thesis by simp
    qed
  qed
qed

lemma funpow_next_day:
  "valid_moment m \<Longrightarrow>
   valid_moment ((next_day ^^ n) m) \<and> day_number ((next_day ^^ n) m) = day_number m + int n \<and>
   hour ((next_day ^^ n) m) = hour m \<and> minute ((next_day ^^ n) m) = minute m \<and>
   second ((next_day ^^ n) m) = second m \<and> millisecond ((next_day ^^ n) m) = millisecond m"
proof (induction n)
  case 0
  then show ?case by simp
next
  case (Suc n)
  then show ?case
    using valid_next_day [of "(next_day ^^ n) m"] day_number_next_day [of "(next_day ^^ n) m"]
    by simp
qed

lemma funpow_prev_day:
  "valid_moment m \<Longrightarrow>
   valid_moment ((prev_day ^^ n) m) \<and> day_number ((prev_day ^^ n) m) = day_number m - int n \<and>
   hour ((prev_day ^^ n) m) = hour m \<and> minute ((prev_day ^^ n) m) = minute m \<and>
   second ((prev_day ^^ n) m) = second m \<and> millisecond ((prev_day ^^ n) m) = millisecond m"
proof (induction n)
  case 0
  then show ?case by simp
next
  case (Suc n)
  then show ?case
    using valid_prev_day [of "(prev_day ^^ n) m"] day_number_prev_day [of "(prev_day ^^ n) m"]
    by simp
qed

lemma add_days_props:
  "valid_moment m \<Longrightarrow>
   valid_moment (add_days n m) \<and> day_number (add_days n m) = day_number m + n \<and>
   hour (add_days n m) = hour m \<and> minute (add_days n m) = minute m \<and>
   second (add_days n m) = second m \<and> millisecond (add_days n m) = millisecond m"
  using funpow_next_day [of m "nat n"] funpow_prev_day [of m "nat (- n)"]
  by (auto simp: add_days_def)

lemma add_days_0: "add_days 0 m = m"
  by (simp add: add_days_def)

lemma day_number_update [simp]:
  "day_number (m\<lparr>hour := h\<rparr>) = day_number m"
  "day_number (m\<lparr>minute := mi\<rparr>) = day_number m"
  "day_number (m\<lparr>second := s\<rparr>) = day_number m"
  "day_number (m\<lparr>millisecond := ms\<rparr>) = day_number m"
  by (simp_all add: day_number_def)

lemma ms_split:
  fixes r :: nat
  shows "(r div 3600000) * 3600000 + ((r div 60000) mod 60) * 60000 +
         ((r div 1000) mod 60) * 1000 + r mod 1000 = r"
proof -
  define s where "s = r div 1000"
  define mi where "mi = r div 60000"
  define h where "h = r div 3600000"
  define w where "w = r mod 1000"
  define v where "v = s mod 60"
  define u where "u = mi mod 60"
  have mi: "mi = s div 60" by (simp add: mi_def s_def div_mult2_eq [symmetric])
  have h: "h = mi div 60" by (simp add: h_def mi_def div_mult2_eq [symmetric])
  have 1: "r = s * 1000 + w" by (simp add: s_def w_def)
  have 2: "s = mi * 60 + v" by (simp add: mi v_def)
  have 3: "mi = h * 60 + u" by (simp add: h u_def)
  have "h * 3600000 + u * 60000 + v * 1000 + w = r"
    unfolding 1 2 3 by (simp add: algebra_simps)
  then show ?thesis by (simp only: s_def mi_def h_def w_def v_def u_def)
qed

lemma at_day_ms_props:
  assumes "valid_moment m"
  shows "valid_moment (at_day_ms m t) \<and> time_ms (at_day_ms m t) = day_number m * 86400000 + t"
proof -
  define r where "r = nat (t mod 86400000)"
  define q where "q = t div 86400000"
  define h where "h = r div 3600000"
  define mi where "mi = (r div 60000) mod 60"
  define s where "s = (r div 1000) mod 60"
  define w where "w = r mod 1000"
  have r: "r < 86400000" "int r = t mod 86400000" by (simp_all add: r_def)
  have t: "t = q * 86400000 + int r" by (simp add: q_def r)
  note a = add_days_props [OF assms, of q]
  have h: "h < 24" unfolding h_def using r(1) by (simp add: less_mult_imp_div_less)
  have b: "mi < 60" "s < 60" "w < 1000" by (simp_all add: mi_def s_def w_def)
  have "h * 3600000 + mi * 60000 + s * 1000 + w = r"
    unfolding h_def mi_def s_def w_def by (rule ms_split)
  then have "int (h * 3600000 + mi * 60000 + s * 1000 + w) = int r" by (rule arg_cong)
  then have dec: "int h * 3600000 + int mi * 60000 + int s * 1000 + int w = int r" by simp
  have e: "at_day_ms m t = (add_days q m)\<lparr>hour := h, minute := mi, second := s, millisecond := w\<rparr>"
    by (simp add: at_day_ms_def Let_def r_def q_def h_def mi_def s_def w_def)
  have v: "valid_moment (at_day_ms m t)"
    unfolding e using a h b by (simp add: valid_moment_def)
  have "time_ms (at_day_ms m t) = (day_number m + q) * 86400000 + int r"
    unfolding e using a dec by (simp add: time_ms_def ms_of_day_def)
  with v show ?thesis unfolding t by (simp add: algebra_simps)
qed

lemma time_ms_add_milliseconds:
  "valid_moment m \<Longrightarrow> time_ms (add_milliseconds d m) = time_ms m + d"
  using at_day_ms_props [of m "ms_of_day m + d"]
  by (simp add: add_milliseconds_def time_ms_def)

lemma valid_add_milliseconds:
  "valid_moment m \<Longrightarrow> valid_moment (add_milliseconds d m)"
  using at_day_ms_props [of m "ms_of_day m + d"]
  by (simp add: add_milliseconds_def)

lemma ms_join:
  fixes h mi s w :: nat
  assumes "mi < 60" "s < 60" "w < 1000"
    and r_def: "r = h * 3600000 + mi * 60000 + s * 1000 + w"
  shows "r div 3600000 = h \<and> (r div 60000) mod 60 = mi \<and> (r div 1000) mod 60 = s \<and>
         r mod 1000 = w"
proof -
  define k where "k = h * 3600 + mi * 60 + s"
  define l where "l = h * 60 + mi"
  have r1: "r = k * 1000 + w" by (simp add: r_def k_def)
  have k1: "k = l * 60 + s" by (simp add: k_def l_def)
  have w: "r mod 1000 = w" unfolding r1 using assms(3) by simp
  have d1: "r div 1000 = k" unfolding r1 using assms(3) by simp
  have s: "(r div 1000) mod 60 = s" unfolding d1 k1 using assms(2) by simp
  have "r div 60000 = r div 1000 div 60" by (simp add: div_mult2_eq [symmetric])
  then have d2: "r div 60000 = l" unfolding d1 k1 using assms(2) by simp
  have mi: "(r div 60000) mod 60 = mi" unfolding d2 l_def using assms(1) by simp
  have "r div 3600000 = r div 60000 div 60" by (simp add: div_mult2_eq [symmetric])
  then have h: "r div 3600000 = h" unfolding d2 l_def using assms(1) by simp
  from w s mi h show ?thesis by simp
qed

text \<open>An instant within the day leaves the date as it is.\<close>

lemma at_day_ms_in_day:
  assumes "h < 24" "mi < 60" "s < 60" "w < 1000"
  shows "at_day_ms m (int h * 3600000 + int mi * 60000 + int s * 1000 + int w) =
         m\<lparr>hour := h, minute := mi, second := s, millisecond := w\<rparr>"
proof -
  define r where "r = h * 3600000 + mi * 60000 + s * 1000 + w"
  have t: "int h * 3600000 + int mi * 60000 + int s * 1000 + int w = int r"
    by (simp add: r_def)
  have lt: "r < 86400000" using assms by (simp add: r_def)
  then have "int r < 86400000" by simp
  then have q: "int r div 86400000 = 0" and m: "int r mod 86400000 = int r"
    by (simp_all add: div_pos_pos_trivial mod_pos_pos_trivial)
  from ms_join [OF assms(2-4) r_def]
  have j: "r div 3600000 = h" "(r div 60000) mod 60 = mi" "(r div 1000) mod 60 = s"
    "r mod 1000 = w"
    by simp_all
  show ?thesis
    unfolding t by (simp add: at_day_ms_def Let_def q m add_days_0 j)
qed

lemma moment_hour_in_range:
  assumes "h < 24" "minute m < 60" "second m < 60" "millisecond m < 1000"
  shows "moment_hour h m = m\<lparr>hour := h\<rparr>"
  using at_day_ms_in_day [OF assms, of m] by (simp add: moment_hour_def ms_of_day_def)

lemma moment_minute_in_range:
  assumes "hour m < 24" "mi < 60" "second m < 60" "millisecond m < 1000"
  shows "moment_minute mi m = m\<lparr>minute := mi\<rparr>"
  using at_day_ms_in_day [OF assms, of m] by (simp add: moment_minute_def ms_of_day_def)

lemma moment_second_in_range:
  assumes "hour m < 24" "minute m < 60" "s < 60" "millisecond m < 1000"
  shows "moment_second s m = m\<lparr>second := s\<rparr>"
  using at_day_ms_in_day [OF assms, of m] by (simp add: moment_second_def ms_of_day_def)

lemma funpow_numeral_step: "(f ^^ numeral n) x = f ((f ^^ pred_numeral n) x)"
  by (simp add: numeral_eq_Suc)
section \<open>Evaluation of the example lines\<close>

lemmas eval_rules = str_def is_ws_def is_digit_def trimStart_def trimEnd_def trim_def substring_def
  indexOf_def toLowerCase_unit_def toLowerCase_def Number_def
  isLeapYear_def daysInMonth_def next_day_def prev_day_def add_days_def ms_of_day_def at_day_ms_def
  moment_hour_def moment_minute_def moment_second_def moment_parse_def
  DATAVIEW_KEY_ALIASES_def
  match_iso_date_def match_time_def match_symbol_def match_ws_date_def match_ws_time_def
  is_high_surrogate_def is_low_surrogate_def
  AdvanceStringIndex_def regex_exec.simps exec_all.simps split_time_def emoji_field_def
  findDataviewSeparator_def findClosingBracket_def dataview_at_def dataview_loop.simps
  simple_field_def kanban_field_def push_non_overlapping_def
  List.map_filter_def Let_def

lemmas grammar_defs = extractAllDates_def collect_dates_def extractEmojiDates_def EMOJI_DATE_PATTERNS_def
  extractDataviewDates_def DATAVIEW_WRAPPERS_def extractSimpleDates_def extractKanbanDates_def
  list.map prod.case




lemma no_date_fields: "extractAllDates (str ''no  date'') None = []"
  unfolding grammar_defs
  by (simp add: eval_rules)

lemma trip_content:
  "drop 6 trip_line =
     str ''Trip '' @ [55357, 57067] @ str '' 2025-01-10 09:00 '' @ [55357, 56517] @
     str '' 2025-01-12 '' @ [9203] @ str '' 2025-01-01 '' @ [9203] @ str '' 2025-01-02''"
  by (simp add: trip_line_def str_def)

lemma trip_content_emoji:
  "extractEmojiDates (drop 6 trip_line) = [trip_due, trip_start, trip_scheduled1, trip_scheduled2]"
proof -
  note l = trip_content
  have 1: "exec_all (EMOJI_DATE [[55357, 56517], [55357, 56518], [55357, 56787]]) (drop 6 trip_line) 0 =
      [(25, 13, str ''2025-01-12'', None)]"
    unfolding l by (simp add: eval_rules)
  have 2: "exec_all (EMOJI_DATE [[55357, 57067]]) (drop 6 trip_line) 0 =
      [(5, 19, str ''2025-01-10'', Some (str ''09:00''))]"
    unfolding l by (simp add: eval_rules)
  have 3: "exec_all (EMOJI_DATE [[9203], [8987]]) (drop 6 trip_line) 0 =
      [(39, 12, str ''2025-01-01'', None), (52, 12, str ''2025-01-02'', None)]"
    unfolding l by (simp add: eval_rules)
  have 4: "exec_all (EMOJI_DATE [[10133]]) (drop 6 trip_line) 0 = []"
    "exec_all (EMOJI_DATE [[9989]]) (drop 6 trip_line) 0 = []"
    "exec_all (EMOJI_DATE [[10060]]) (drop 6 trip_line) 0 = []"
    unfolding l by (auto intro!: exec_all_emoji_absent simp: str_def)
  show ?thesis
    unfolding extractEmojiDates_def EMOJI_DATE_PATTERNS_def list.map prod.case 1 2 3 4
    unfolding l
    by (simp add: List.map_filter_def emoji_field_def moment_parse_def Number_def str_def
        daysInMonth_def trip_due_def trip_start_def trip_scheduled1_def trip_scheduled2_def
        split_time_def moment_hour_def moment_minute_def moment_second_def ms_of_day_def
        at_day_ms_def add_days_def)
qed

lemma trip_content_others:
  "extractDataviewDates (drop 6 trip_line) = []" "extractSimpleDates (drop 6 trip_line) = []"
  "extractKanbanDates (drop 6 trip_line) = []"
proof -
  have at: "64 \<notin> set (drop 6 trip_line)" by (simp add: trip_content str_def)
  have br: "91 \<notin> set (drop 6 trip_line)" "40 \<notin> set (drop 6 trip_line)"
    by (simp_all add: trip_content str_def)
  show "extractDataviewDates (drop 6 trip_line) = []"
    unfolding extractDataviewDates_def DATAVIEW_WRAPPERS_def list.map prod.case
    by (simp add: dataview_loop_absent br)
  show "extractSimpleDates (drop 6 trip_line) = []"
    by (simp add: extractSimpleDates_def exec_all_at_absent [OF at] List.map_filter_def)
  show "extractKanbanDates (drop 6 trip_line) = []"
    by (simp add: extractKanbanDates_def exec_all_at_absent [OF at] List.map_filter_def)
qed

lemma trip_content_fields:
  "extractAllDates (drop 6 trip_line) None =
     [trip_start, trip_due, trip_scheduled1, trip_scheduled2]"
  by (simp add: extractAllDates_def collect_dates_def trip_content_emoji trip_content_others
      push_non_overlapping_def trip_due_def trip_start_def trip_scheduled1_def
      trip_scheduled2_def)

lemma trip_content_strip: "stripDates (drop 6 trip_line) = str ''Trip''"
  unfolding stripDates_def trip_content_fields
  by (simp add: trip_content trip_due_def trip_start_def trip_scheduled1_def
      trip_scheduled2_def str_def trim_def trimStart_def trimEnd_def is_ws_def)

lemma trip_task_parsed:
  "parse_task DEFAULT_PRIORITY None (str ''Default'') 7 trip_line = Some trip_task"
proof -
  have p: "match_TASK_PREFIX trip_line = Some (6, 32)"
    by (simp add: match_TASK_PREFIX_def trip_line_def str_def is_ws_def Let_def)
  have g: "getPrimaryDate (drop 6 trip_line) DEFAULT_PRIORITY None = Some trip_due"
    by (simp add: getPrimaryDate_def trip_content_fields DEFAULT_PRIORITY_def trip_due_def
        trip_start_def trip_scheduled1_def trip_scheduled2_def)
  show ?thesis
    by (simp add: parse_task_def p g trip_content_fields trip_content_strip trip_task_def
        trip_due_def str_def trim_def trimStart_def trimEnd_def is_ws_def
        nat_digits.simps [of 7])
qed

lemma trip_line_emoji:
  "extractEmojiDates trip_line =
     map (\<lambda>f. f\<lparr>start := start f + 6, end' := end' f + 6\<rparr>)
       [trip_due, trip_start, trip_scheduled1, trip_scheduled2]"
proof -
  have 1: "exec_all (EMOJI_DATE [[55357, 56517], [55357, 56518], [55357, 56787]]) trip_line 0 =
      [(31, 13, str ''2025-01-12'', None)]"
    by (simp add: trip_line_def eval_rules)
  have 2: "exec_all (EMOJI_DATE [[55357, 57067]]) trip_line 0 =
      [(11, 19, str ''2025-01-10'', Some (str ''09:00''))]"
    by (simp add: trip_line_def eval_rules)
  have 3: "exec_all (EMOJI_DATE [[9203], [8987]]) trip_line 0 =
      [(45, 12, str ''2025-01-01'', None), (58, 12, str ''2025-01-02'', None)]"
    by (simp add: trip_line_def eval_rules)
  have 4: "exec_all (EMOJI_DATE [[10133]]) trip_line 0 = []"
    "exec_all (EMOJI_DATE [[9989]]) trip_line 0 = []"
    "exec_all (EMOJI_DATE [[10060]]) trip_line 0 = []"
    by (auto intro!: exec_all_emoji_absent simp: trip_line_def str_def)
  show ?thesis
    unfolding extractEmojiDates_def EMOJI_DATE_PATTERNS_def list.map prod.case 1 2 3 4
    by (simp add: List.map_filter_def emoji_field_def moment_parse_def Number_def str_def
        daysInMonth_def trip_due_def trip_start_def trip_scheduled1_def trip_scheduled2_def
        split_time_def moment_hour_def moment_minute_def moment_second_def ms_of_day_def
        at_day_ms_def add_days_def trip_line_def)
qed

lemma trip_line_others:
  "extractDataviewDates trip_line = []" "extractSimpleDates trip_line = []"
  "extractKanbanDates trip_line = []"
proof -
  have at: "64 \<notin> set trip_line" by (simp add: trip_line_def str_def)
  show "extractDataviewDates trip_line = []"
    unfolding extractDataviewDates_def DATAVIEW_WRAPPERS_def list.map prod.case
    by (simp add: trip_line_def str_def dataview_loop.simps indexOf_def dataview_at_def
        findDataviewSeparator_def)
  show "extractSimpleDates trip_line = []"
    by (simp add: extractSimpleDates_def exec_all_at_absent [OF at] List.map_filter_def)
  show "extractKanbanDates trip_line = []"
    by (simp add: extractKanbanDates_def exec_all_at_absent [OF at] List.map_filter_def)
qed

lemma trip_line_fields:
  "extractAllDates trip_line None =
     map (\<lambda>f. f\<lparr>start := start f + 6, end' := end' f + 6\<rparr>)
       [trip_start, trip_due, trip_scheduled1, trip_scheduled2]"
  by (simp add: extractAllDates_def collect_dates_def trip_line_emoji trip_line_others
      push_non_overlapping_def trip_due_def trip_start_def trip_scheduled1_def
      trip_scheduled2_def)

lemma trip_line_strip: "stripDates trip_line = str ''- [ ] Trip''"
  unfolding stripDates_def trip_line_fields
  by (simp add: trip_line_def trip_due_def trip_start_def trip_scheduled1_def
      trip_scheduled2_def str_def trim_def trimStart_def trimEnd_def is_ws_def)

lemmas format_rules = format_date_time_def format_date_def format_time_def zeroFill_def
  nat_digits.simps str_def

lemmas clock_rules = add_minutes_def add_milliseconds_def moment_hour_def moment_minute_def
  moment_second_def at_day_ms_def ms_of_day_def add_days_def next_day_def prev_day_def
  daysInMonth_def isLeapYear_def

lemma trip_task_find:
  "find (\<lambda>d. type d = Start) (allDates trip_task) = Some trip_start"
  "find (\<lambda>d. type d = Due) (allDates trip_task) = Some trip_due"
  by (simp_all add: trip_task_def trip_start_def trip_due_def)

lemma trip_selectors:
  "hasTime trip_start = Some True" "hasTime trip_due = Some False"
  "format trip_start = F_tasks" "format trip_due = F_tasks"
  "isKanban trip_task = Some False" "task_hasTime trip_task = Some False"
  "dateType trip_task = Due" "markdown trip_task = trip_line"
  "valid_moment (date trip_start)" "valid_moment (date trip_due)"
  by (simp_all add: trip_task_def trip_start_def trip_due_def valid_moment_def daysInMonth_def)

lemma trip_formats:
  "format_date_time (date trip_start) = str ''2025-01-10 09:00''"
  "format_date (date trip_due) = str ''2025-01-12''"
  by (simp_all add: trip_start_def trip_due_def format_rules)

lemma kanban_task_selectors:
  "isKanban kanban_task = Some True" "task_hasTime kanban_task = Some True"
  by (simp_all add: kanban_task_def)

lemma kanban_task_formats:
  "format_date_time (task_date kanban_task) = str ''2025-03-01 09:00''"
  "format_date_time (add_minutes 30 (task_date kanban_task)) = str ''2025-03-01 09:30''"
  by (simp_all add: kanban_task_def kanban_due_def format_rules clock_rules)

lemma dataview_time_line_dataview:
  "extractDataviewDates dataview_time_line =
     [\<lparr>type = Start,
       date = \<lparr>year = 2025, month = 1, day = 15, hour = 0, minute = 0, second = 0,
                millisecond = 0\<rparr>,
       raw = dataview_time_line, start = 0, end' = 26, format = F_dataview_bracket,
       hasTime = None\<rparr>]"
proof -
  have p: "40 \<notin> set dataview_time_line" by (simp add: dataview_time_line_def str_def)
  have a: "dataview_at 91 93 dataview_time_line 0 =
      (Some \<lparr>type = Start,
         date = \<lparr>year = 2025, month = 1, day = 15, hour = 0, minute = 0, second = 0,
                  millisecond = 0\<rparr>,
         raw = dataview_time_line, start = 0, end' = 26, format = F_dataview_bracket,
         hasTime = None\<rparr>, 26)"
    by (simp add: dataview_at_def dataview_time_line_def eval_rules DATAVIEW_WRAPPERS_def)
  have l: "dataview_loop 91 93 dataview_time_line 0 =
      [\<lparr>type = Start,
         date = \<lparr>year = 2025, month = 1, day = 15, hour = 0, minute = 0, second = 0,
                  millisecond = 0\<rparr>,
         raw = dataview_time_line, start = 0, end' = 26, format = F_dataview_bracket,
         hasTime = None\<rparr>]"
    using dataview_loop_step [of 0 dataview_time_line 91 0 93, OF _ _ a]
      dataview_loop_end [of 26 dataview_time_line 91 93]
    by (simp add: dataview_time_line_def str_def indexOf_def)
  show ?thesis
    unfolding extractDataviewDates_def DATAVIEW_WRAPPERS_def list.map prod.case
    by (simp add: l dataview_loop_absent [OF p])
qed

lemma dataview_time_line_others:
  "extractEmojiDates dataview_time_line = []" "extractSimpleDates dataview_time_line = []"
  "extractKanbanDates dataview_time_line = []"
proof -
  have at: "64 \<notin> set dataview_time_line" by (simp add: dataview_time_line_def str_def)
  show "extractEmojiDates dataview_time_line = []"
    by (rule extractEmojiDates_absent) (simp add: dataview_time_line_def str_def)
  show "extractSimpleDates dataview_time_line = []"
    by (simp add: extractSimpleDates_def exec_all_at_absent [OF at] List.map_filter_def)
  show "extractKanbanDates dataview_time_line = []"
    by (simp add: extractKanbanDates_def exec_all_at_absent [OF at] List.map_filter_def)
qed

lemma overlap_line_dataview: "extractDataviewDates overlap_line = [overlap_dataview]"
proof -
  have p: "40 \<notin> set overlap_line" by (simp add: overlap_line_def str_def)
  have a: "dataview_at 91 93 overlap_line 0 = (Some overlap_dataview, 30)"
    by (simp add: dataview_at_def overlap_line_def overlap_dataview_def eval_rules
        DATAVIEW_WRAPPERS_def)
  have e: "dataview_loop 91 93 overlap_line 30 = []"
    by (rule dataview_loop_none) (simp add: overlap_line_def str_def indexOf_def)
  have l: "dataview_loop 91 93 overlap_line 0 = [overlap_dataview]"
    using dataview_loop_step [of 0 overlap_line 91 0 93, OF _ _ a] e
    by (simp add: overlap_line_def str_def indexOf_def)
  show ?thesis
    unfolding extractDataviewDates_def DATAVIEW_WRAPPERS_def list.map prod.case
    by (simp add: l dataview_loop_absent [OF p])
qed

lemma overlap_line_simple: "extractSimpleDates overlap_line = [overlap_inner, overlap_after]"
proof -
  have "exec_all SIMPLE_DATE_REGEX overlap_line 0 =
      [(18, 11, str ''2025-01-16'', None), (31, 11, str ''2025-01-20'', None)]"
    by (simp add: overlap_line_def eval_rules)
  then show ?thesis
    by (simp add: extractSimpleDates_def List.map_filter_def simple_field_def moment_parse_def
        Number_def str_def daysInMonth_def overlap_inner_def overlap_after_def overlap_line_def)
qed

lemma overlap_line_others:
  "extractEmojiDates overlap_line = []" "extractKanbanDates overlap_line = []"
proof -
  show "extractEmojiDates overlap_line = []"
    by (rule extractEmojiDates_absent) (simp add: overlap_line_def str_def)
  have "regex_exec KANBAN_TIME_REGEX overlap_line 0 = None"
    by (simp add: overlap_line_def eval_rules)
  moreover have "exec_all KANBAN_DATE_REGEX overlap_line 0 = []"
    by (simp add: overlap_line_def eval_rules)
  ultimately show "extractKanbanDates overlap_line = []"
    by (simp add: extractKanbanDates_def List.map_filter_def)
qed

lemma overlap_line_collect:
  "collect_dates overlap_line None = [overlap_dataview, overlap_inner, overlap_after]"
  by (simp add: collect_dates_def overlap_line_dataview overlap_line_simple overlap_line_others)

lemma spaced_line_fields: "extractAllDates spaced_line None = [spaced_due]"
proof -
  have 1: "exec_all (EMOJI_DATE [[55357, 56517], [55357, 56518], [55357, 56787]]) spaced_line 0 =
      [(10, 13, str ''2025-11-29'', None)]"
    by (simp add: spaced_line_def eval_rules)
  have 2: "exec_all (EMOJI_DATE [[55357, 57067]]) spaced_line 0 = []"
    by (simp add: spaced_line_def eval_rules)
  have 3: "exec_all (EMOJI_DATE [[9203], [8987]]) spaced_line 0 = []"
    "exec_all (EMOJI_DATE [[10133]]) spaced_line 0 = []"
    "exec_all (EMOJI_DATE [[9989]]) spaced_line 0 = []"
    "exec_all (EMOJI_DATE [[10060]]) spaced_line 0 = []"
    by (auto intro!: exec_all_emoji_absent simp: spaced_line_def str_def)
  have e: "extractEmojiDates spaced_line = [spaced_due]"
    unfolding extractEmojiDates_def EMOJI_DATE_PATTERNS_def list.map prod.case 1 2 3
    by (simp add: List.map_filter_def emoji_field_def moment_parse_def Number_def str_def
        daysInMonth_def spaced_due_def spaced_line_def)
  have at: "64 \<notin> set spaced_line" by (simp add: spaced_line_def str_def)
  have b: "91 \<notin> set spaced_line" "40 \<notin> set spaced_line"
    by (simp_all add: spaced_line_def str_def)
  have d: "extractDataviewDates spaced_line = []"
    unfolding extractDataviewDates_def DATAVIEW_WRAPPERS_def list.map prod.case
    by (simp add: dataview_loop_absent b)
  have s: "extractSimpleDates spaced_line = []"
    by (simp add: extractSimpleDates_def exec_all_at_absent [OF at] List.map_filter_def)
  have k: "extractKanbanDates spaced_line = []"
    by (simp add: extractKanbanDates_def exec_all_at_absent [OF at] List.map_filter_def)
  show ?thesis
    by (simp add: extractAllDates_def collect_dates_def e d s k push_non_overlapping_def)
qed

lemma inherited_line_fields: "extractAllDates inherited_line None = [inherited_field]"
proof -
  have p: "40 \<notin> set inherited_line" by (simp add: inherited_line_def str_def)
  have a: "dataview_at 91 93 inherited_line 5 = (Some inherited_field, 31)"
    by (simp add: dataview_at_def inherited_line_def inherited_field_def eval_rules
        DATAVIEW_WRAPPERS_def)
  have l: "dataview_loop 91 93 inherited_line 0 = [inherited_field]"
    using dataview_loop_step [of 0 inherited_line 91 5 93, OF _ _ a]
      dataview_loop_end [of 31 inherited_line 91 93]
    by (simp add: inherited_line_def str_def indexOf_def)
  have d: "extractDataviewDates inherited_line = [inherited_field]"
    unfolding extractDataviewDates_def DATAVIEW_WRAPPERS_def list.map prod.case
    by (simp add: l dataview_loop_absent [OF p])
  have at: "64 \<notin> set inherited_line" by (simp add: inherited_line_def str_def)
  have e: "extractEmojiDates inherited_line = []"
    by (rule extractEmojiDates_absent) (simp add: inherited_line_def str_def)
  have s: "extractSimpleDates inherited_line = []"
    by (simp add: extractSimpleDates_def exec_all_at_absent [OF at] List.map_filter_def)
  have k: "extractKanbanDates inherited_line = []"
    by (simp add: extractKanbanDates_def exec_all_at_absent [OF at] List.map_filter_def)
  show ?thesis
    by (simp add: extractAllDates_def collect_dates_def e d s k push_non_overlapping_def)
qed
section \<open>Evaluation of drops and resizes\<close>

lemma trip_preserve_existing:
  "preserve_existing (allDates trip_task) =
     Some [Start \<mapsto> [55357, 57067] @ str '' 2025-01-10 09:00'',
           Due \<mapsto> [55357, 56517] @ str '' 2025-01-12'',
           Scheduled \<mapsto> [9203] @ str '' 2025-01-02'']"
proof -
  have f: "formatDate Start (date trip_start) (format trip_start)
         (truthy (hasTime trip_start)) = Some ([55357, 57067] @ str '' 2025-01-10 09:00'')"
    "formatDate Due (date trip_due) (format trip_due) (truthy (hasTime trip_due)) =
       Some ([55357, 56517] @ str '' 2025-01-12'')"
    "formatDate Scheduled (date trip_scheduled1) (format trip_scheduled1)
         (truthy (hasTime trip_scheduled1)) = Some ([9203] @ str '' 2025-01-01'')"
    "formatDate Scheduled (date trip_scheduled2) (format trip_scheduled2)
         (truthy (hasTime trip_scheduled2)) = Some ([9203] @ str '' 2025-01-02'')"
    by (simp_all add: trip_start_def trip_due_def trip_scheduled1_def trip_scheduled2_def
        formatDate_def truthy_def format_rules)
  have t: "type trip_start = Start" "type trip_due = Due" "type trip_scheduled1 = Scheduled"
    "type trip_scheduled2 = Scheduled"
    by (simp_all add: trip_start_def trip_due_def trip_scheduled1_def trip_scheduled2_def)
  have "allDates trip_task = [trip_start, trip_due, trip_scheduled1, trip_scheduled2]"
    by (simp add: trip_task_def)
  then show ?thesis
    by (simp add: preserve_existing_def t f)
qed

text \<open>The map of a drop of a task with a start field and a due field.\<close>

lemma drop_dateUpdates_span:
  assumes "find (\<lambda>d. type d = Start) (allDates task) = Some sf"
    and "find (\<lambda>d. type d = Due) (allDates task) = Some df"
    and "preserve_existing (allDates task) = Some m"
    and "shifted = add_milliseconds (diff newStart (date sf)) (date df)"
    and "finalStart =
          (if truthy (hasTime sf) \<and> isDefaultDropTime newStart
           then moment_minute (minute (date sf)) (moment_hour (hour (date sf)) newStart)
           else newStart)"
    and "restoredEnd =
          (if truthy (hasTime df) \<and> isDefaultDropTime newEnd
           then moment_minute (minute (date df)) (moment_hour (hour (date df)) shifted)
           else shifted)"
    and "finalEnd =
          (if \<not> isSame_day (date sf) (date df) \<and> isSame_day finalStart restoredEnd \<and>
              isSameOrBefore restoredEnd finalStart
           then moment_minute 59 (moment_hour 23 restoredEnd)
           else restoredEnd)"
    and "formatDate Start finalStart (format sf)
           (truthy (hasTime sf) \<or>
            ((hour newStart \<noteq> 0 \<or> minute newStart \<noteq> 0) \<and> \<not> isDefaultDropTime newStart)) =
         Some startText"
    and "formatDate Due finalEnd (format df)
           (truthy (hasTime df) \<or>
            ((hour newEnd \<noteq> 0 \<or> minute newEnd \<noteq> 0) \<and> \<not> isDefaultDropTime newEnd)) =
         Some dueText"
  shows "drop_dateUpdates task newStart newEnd = Some (m(Start \<mapsto> startText, Due \<mapsto> dueText))"
proof -
  have n: "drop_newEndMoment task newStart newEnd = shifted"
    by (simp add: drop_newEndMoment_def assms(1,2,4))
  show ?thesis
    unfolding drop_dateUpdates_def n Let_def assms(1,2,3)
    using assms(8,9) unfolding assms(7) assms(6) assms(5)
    by simp
qed


lemma trip_drop_line:
  "handleEventDrop trip_task trip_line drop_start drop_end =
     Some (str ''- [ ] Trip '' @ [55357, 57067] @ str '' 2025-01-11 09:00 '' @ [9203] @
           str '' 2025-01-02 '' @ [55357, 56517] @ str '' 2025-01-13'')"
proof -
  let ?shifted = "\<lparr>year = 2025, month = 1, day = 13, hour = 0, minute = 0, second = 0, millisecond = 0\<rparr>"
  let ?start = "\<lparr>year = 2025, month = 1, day = 11, hour = 9, minute = 0, second = 0, millisecond = 0\<rparr>"
  have "drop_dateUpdates trip_task drop_start drop_end =
      Some ([Start \<mapsto> [55357, 57067] @ str '' 2025-01-10 09:00'',
             Due \<mapsto> [55357, 56517] @ str '' 2025-01-12'',
             Scheduled \<mapsto> [9203] @ str '' 2025-01-02'']
            (Start \<mapsto> [55357, 57067] @ str '' 2025-01-11 09:00'',
             Due \<mapsto> [55357, 56517] @ str '' 2025-01-13''))"
  proof (rule drop_dateUpdates_span [where sf = trip_start and df = trip_due
        and shifted = ?shifted and finalStart = ?start and restoredEnd = ?shifted
        and finalEnd = ?shifted])
    show "find (\<lambda>d. type d = Start) (allDates trip_task) = Some trip_start"
      "find (\<lambda>d. type d = Due) (allDates trip_task) = Some trip_due"
      by (rule trip_task_find)+
    show "preserve_existing (allDates trip_task) =
       Some [Start \<mapsto> [55357, 57067] @ str '' 2025-01-10 09:00'',
             Due \<mapsto> [55357, 56517] @ str '' 2025-01-12'',
             Scheduled \<mapsto> [9203] @ str '' 2025-01-02'']"
      by (rule trip_preserve_existing)
    show "?shifted = add_milliseconds (diff drop_start (date trip_start)) (date trip_due)"
      by (simp add: diff_def time_ms_def day_number_def days_before_year_def
          days_before_month_def trip_start_def trip_due_def drop_start_def clock_rules
          funpow_numeral_step)
    show "?start =
          (if truthy (hasTime trip_start) \<and> isDefaultDropTime drop_start
           then moment_minute (minute (date trip_start))
                  (moment_hour (hour (date trip_start)) drop_start)
           else drop_start)"
      by (simp add: trip_start_def truthy_def isDefaultDropTime_def drop_start_def clock_rules)
    show "?shifted =
          (if truthy (hasTime trip_due) \<and> isDefaultDropTime drop_end
           then moment_minute (minute (date trip_due)) (moment_hour (hour (date trip_due)) ?shifted)
           else ?shifted)"
      by (simp add: trip_due_def truthy_def)
    show "?shifted =
          (if \<not> isSame_day (date trip_start) (date trip_due) \<and> isSame_day ?start ?shifted \<and>
              isSameOrBefore ?shifted ?start
           then moment_minute 59 (moment_hour 23 ?shifted)
           else ?shifted)"
      by (simp add: isSame_day_def)
    show "formatDate Start ?start (format trip_start)
           (truthy (hasTime trip_start) \<or>
            ((hour drop_start \<noteq> 0 \<or> minute drop_start \<noteq> 0) \<and>
             \<not> isDefaultDropTime drop_start)) =
         Some ([55357, 57067] @ str '' 2025-01-11 09:00'')"
      by (simp add: trip_start_def truthy_def formatDate_def format_rules)
    show "formatDate Due ?shifted (format trip_due)
           (truthy (hasTime trip_due) \<or>
            ((hour drop_end \<noteq> 0 \<or> minute drop_end \<noteq> 0) \<and>
             \<not> isDefaultDropTime drop_end)) =
         Some ([55357, 56517] @ str '' 2025-01-13'')"
      by (simp add: trip_due_def truthy_def formatDate_def format_rules isDefaultDropTime_def
          drop_end_def)
  qed
  then show ?thesis
    by (simp add: handleEventDrop_def trip_line_strip reconstructLine_def CANONICAL_ORDER_def
        trimEnd_def is_ws_def str_def)
qed

lemma trip_allday_drop_line:
  "handleEventDrop trip_task trip_line allday_drop_start allday_drop_end =
     Some (str ''- [ ] Trip '' @ [55357, 57067] @ str '' 2025-01-15 09:00 '' @ [9203] @
           str '' 2025-01-02 '' @ [55357, 56517] @ str '' 2025-01-16'')"
proof -
  let ?shifted = "\<lparr>year = 2025, month = 1, day = 16, hour = 15, minute = 0, second = 0, millisecond = 0\<rparr>"
  let ?start = "\<lparr>year = 2025, month = 1, day = 15, hour = 9, minute = 0, second = 0, millisecond = 0\<rparr>"
  have "drop_dateUpdates trip_task allday_drop_start allday_drop_end =
      Some ([Start \<mapsto> [55357, 57067] @ str '' 2025-01-10 09:00'',
             Due \<mapsto> [55357, 56517] @ str '' 2025-01-12'',
             Scheduled \<mapsto> [9203] @ str '' 2025-01-02'']
            (Start \<mapsto> [55357, 57067] @ str '' 2025-01-15 09:00'',
             Due \<mapsto> [55357, 56517] @ str '' 2025-01-16''))"
  proof (rule drop_dateUpdates_span [where sf = trip_start and df = trip_due
        and shifted = ?shifted and finalStart = ?start and restoredEnd = ?shifted
        and finalEnd = ?shifted])
    show "find (\<lambda>d. type d = Start) (allDates trip_task) = Some trip_start"
      "find (\<lambda>d. type d = Due) (allDates trip_task) = Some trip_due"
      by (rule trip_task_find)+
    show "preserve_existing (allDates trip_task) =
       Some [Start \<mapsto> [55357, 57067] @ str '' 2025-01-10 09:00'',
             Due \<mapsto> [55357, 56517] @ str '' 2025-01-12'',
             Scheduled \<mapsto> [9203] @ str '' 2025-01-02'']"
      by (rule trip_preserve_existing)
    show "?shifted = add_milliseconds (diff allday_drop_start (date trip_start)) (date trip_due)"
      by (simp add: diff_def time_ms_def day_number_def days_before_year_def
          days_before_month_def trip_start_def trip_due_def allday_drop_start_def clock_rules
          funpow_numeral_step)
    show "?start =
          (if truthy (hasTime trip_start) \<and> isDefaultDropTime allday_drop_start
           then moment_minute (minute (date trip_start))
                  (moment_hour (hour (date trip_start)) allday_drop_start)
           else allday_drop_start)"
      by (simp add: trip_start_def truthy_def isDefaultDropTime_def allday_drop_start_def clock_rules)
    show "?shifted =
          (if truthy (hasTime trip_due) \<and> isDefaultDropTime allday_drop_end
           then moment_minute (minute (date trip_due)) (moment_hour (hour (date trip_due)) ?shifted)
           else ?shifted)"
      by (simp add: trip_due_def truthy_def)
    show "?shifted =
          (if \<not> isSame_day (date trip_start) (date trip_due) \<and> isSame_day ?start ?shifted \<and>
              isSameOrBefore ?shifted ?start
           then moment_minute 59 (moment_hour 23 ?shifted)
           else ?shifted)"
      by (simp add: isSame_day_def)
    show "formatDate Start ?start (format trip_start)
           (truthy (hasTime trip_start) \<or>
            ((hour allday_drop_start \<noteq> 0 \<or> minute allday_drop_start \<noteq> 0) \<and>
             \<not> isDefaultDropTime allday_drop_start)) =
         Some ([55357, 57067] @ str '' 2025-01-15 09:00'')"
      by (simp add: trip_start_def truthy_def formatDate_def format_rules)
    show "formatDate Due ?shifted (format trip_due)
           (truthy (hasTime trip_due) \<or>
            ((hour allday_drop_end \<noteq> 0 \<or> minute allday_drop_end \<noteq> 0) \<and>
             \<not> isDefaultDropTime allday_drop_end)) =
         Some ([55357, 56517] @ str '' 2025-01-16'')"
      by (simp add: trip_due_def truthy_def formatDate_def format_rules isDefaultDropTime_def
          allday_drop_end_def)
  qed
  then show ?thesis
    by (simp add: handleEventDrop_def trip_line_strip reconstructLine_def CANONICAL_ORDER_def
        trimEnd_def is_ws_def str_def)
qed

lemma trip_hour_drop_line:
  "handleEventDrop trip_task trip_line hour_drop_start drop_end =
     Some (str ''- [ ] Trip '' @ [55357, 57067] @ str '' 2025-01-11 10:00 '' @ [9203] @
           str '' 2025-01-02 '' @ [55357, 56517] @ str '' 2025-01-13'')"
proof -
  let ?shifted = "\<lparr>year = 2025, month = 1, day = 13, hour = 1, minute = 0, second = 0, millisecond = 0\<rparr>"
  let ?start = "\<lparr>year = 2025, month = 1, day = 11, hour = 10, minute = 0, second = 0, millisecond = 0\<rparr>"
  have "drop_dateUpdates trip_task hour_drop_start drop_end =
      Some ([Start \<mapsto> [55357, 57067] @ str '' 2025-01-10 09:00'',
             Due \<mapsto> [55357, 56517] @ str '' 2025-01-12'',
             Scheduled \<mapsto> [9203] @ str '' 2025-01-02'']
            (Start \<mapsto> [55357, 57067] @ str '' 2025-01-11 10:00'',
             Due \<mapsto> [55357, 56517] @ str '' 2025-01-13''))"
  proof (rule drop_dateUpdates_span [where sf = trip_start and df = trip_due
        and shifted = ?shifted and finalStart = ?start and restoredEnd = ?shifted
        and finalEnd = ?shifted])
    show "find (\<lambda>d. type d = Start) (allDates trip_task) = Some trip_start"
      "find (\<lambda>d. type d = Due) (allDates trip_task) = Some trip_due"
      by (rule trip_task_find)+
    show "preserve_existing (allDates trip_task) =
       Some [Start \<mapsto> [55357, 57067] @ str '' 2025-01-10 09:00'',
             Due \<mapsto> [55357, 56517] @ str '' 2025-01-12'',
             Scheduled \<mapsto> [9203] @ str '' 2025-01-02'']"
      by (rule trip_preserve_existing)
    show "?shifted = add_milliseconds (diff hour_drop_start (date trip_start)) (date trip_due)"
      by (simp add: diff_def time_ms_def day_number_def days_before_year_def
          days_before_month_def trip_start_def trip_due_def hour_drop_start_def clock_rules
          funpow_numeral_step)
    show "?start =
          (if truthy (hasTime trip_start) \<and> isDefaultDropTime hour_drop_start
           then moment_minute (minute (date trip_start))
                  (moment_hour (hour (date trip_start)) hour_drop_start)
           else hour_drop_start)"
      by (simp add: trip_start_def truthy_def isDefaultDropTime_def hour_drop_start_def clock_rules)
    show "?shifted =
          (if truthy (hasTime trip_due) \<and> isDefaultDropTime drop_end
           then moment_minute (minute (date trip_due)) (moment_hour (hour (date trip_due)) ?shifted)
           else ?shifted)"
      by (simp add: trip_due_def truthy_def)
    show "?shifted =
          (if \<not> isSame_day (date trip_start) (date trip_due) \<and> isSame_day ?start ?shifted \<and>
              isSameOrBefore ?shifted ?start
           then moment_minute 59 (moment_hour 23 ?shifted)
           else ?shifted)"
      by (simp add: isSame_day_def)
    show "formatDate Start ?start (format trip_start)
           (truthy (hasTime trip_start) \<or>
            ((hour hour_drop_start \<noteq> 0 \<or> minute hour_drop_start \<noteq> 0) \<and>
             \<not> isDefaultDropTime hour_drop_start)) =
         Some ([55357, 57067] @ str '' 2025-01-11 10:00'')"
      by (simp add: trip_start_def truthy_def formatDate_def format_rules)
    show "formatDate Due ?shifted (format trip_due)
           (truthy (hasTime trip_due) \<or>
            ((hour drop_end \<noteq> 0 \<or> minute drop_end \<noteq> 0) \<and>
             \<not> isDefaultDropTime drop_end)) =
         Some ([55357, 56517] @ str '' 2025-01-13'')"
      by (simp add: trip_due_def truthy_def formatDate_def format_rules isDefaultDropTime_def
          drop_end_def)
  qed
  then show ?thesis
    by (simp add: handleEventDrop_def trip_line_strip reconstructLine_def CANONICAL_ORDER_def
        trimEnd_def is_ws_def str_def)
qed

lemma trip_hour_drop_timed_line:
  "handleEventDrop trip_task trip_line hour_drop_start timed_drop_end =
     Some (str ''- [ ] Trip '' @ [55357, 57067] @ str '' 2025-01-11 10:00 '' @ [9203] @
           str '' 2025-01-02 '' @ [55357, 56517] @ str '' 2025-01-13 01:00'')"
proof -
  let ?shifted = "\<lparr>year = 2025, month = 1, day = 13, hour = 1, minute = 0, second = 0, millisecond = 0\<rparr>"
  let ?start = "\<lparr>year = 2025, month = 1, day = 11, hour = 10, minute = 0, second = 0, millisecond = 0\<rparr>"
  have "drop_dateUpdates trip_task hour_drop_start timed_drop_end =
      Some ([Start \<mapsto> [55357, 57067] @ str '' 2025-01-10 09:00'',
             Due \<mapsto> [55357, 56517] @ str '' 2025-01-12'',
             Scheduled \<mapsto> [9203] @ str '' 2025-01-02'']
            (Start \<mapsto> [55357, 57067] @ str '' 2025-01-11 10:00'',
             Due \<mapsto> [55357, 56517] @ str '' 2025-01-13 01:00''))"
  proof (rule drop_dateUpdates_span [where sf = trip_start and df = trip_due
        and shifted = ?shifted and finalStart = ?start and restoredEnd = ?shifted
        and finalEnd = ?shifted])
    show "find (\<lambda>d. type d = Start) (allDates trip_task) = Some trip_start"
      "find (\<lambda>d. type d = Due) (allDates trip_task) = Some trip_due"
      by (rule trip_task_find)+
    show "preserve_existing (allDates trip_task) =
       Some [Start \<mapsto> [55357, 57067] @ str '' 2025-01-10 09:00'',
             Due \<mapsto> [55357, 56517] @ str '' 2025-01-12'',
             Scheduled \<mapsto> [9203] @ str '' 2025-01-02'']"
      by (rule trip_preserve_existing)
    show "?shifted = add_milliseconds (diff hour_drop_start (date trip_start)) (date trip_due)"
      by (simp add: diff_def time_ms_def day_number_def days_before_year_def
          days_before_month_def trip_start_def trip_due_def hour_drop_start_def clock_rules
          funpow_numeral_step)
    show "?start =
          (if truthy (hasTime trip_start) \<and> isDefaultDropTime hour_drop_start
           then moment_minute (minute (date trip_start))
                  (moment_hour (hour (date trip_start)) hour_drop_start)
           else hour_drop_start)"
      by (simp add: trip_start_def truthy_def isDefaultDropTime_def hour_drop_start_def clock_rules)
    show "?shifted =
          (if truthy (hasTime trip_due) \<and> isDefaultDropTime timed_drop_end
           then moment_minute (minute (date trip_due)) (moment_hour (hour (date trip_due)) ?shifted)
           else ?shifted)"
      by (simp add: trip_due_def truthy_def)
    show "?shifted =
          (if \<not> isSame_day (date trip_start) (date trip_due) \<and> isSame_day ?start ?shifted \<and>
              isSameOrBefore ?shifted ?start
           then moment_minute 59 (moment_hour 23 ?shifted)
           else ?shifted)"
      by (simp add: isSame_day_def)
    show "formatDate Start ?start (format trip_start)
           (truthy (hasTime trip_start) \<or>
            ((hour hour_drop_start \<noteq> 0 \<or> minute hour_drop_start \<noteq> 0) \<and>
             \<not> isDefaultDropTime hour_drop_start)) =
         Some ([55357, 57067] @ str '' 2025-01-11 10:00'')"
      by (simp add: trip_start_def truthy_def formatDate_def format_rules)
    show "formatDate Due ?shifted (format trip_due)
           (truthy (hasTime trip_due) \<or>
            ((hour timed_drop_end \<noteq> 0 \<or> minute timed_drop_end \<noteq> 0) \<and>
             \<not> isDefaultDropTime timed_drop_end)) =
         Some ([55357, 56517] @ str '' 2025-01-13 01:00'')"
      by (simp add: trip_due_def truthy_def formatDate_def format_rules isDefaultDropTime_def
          timed_drop_end_def)
  qed
  then show ?thesis
    by (simp add: handleEventDrop_def trip_line_strip reconstructLine_def CANONICAL_ORDER_def
        trimEnd_def is_ws_def str_def)
qed

text \<open>The map of a resize of a task with a start field and a due field to several days.\<close>

lemma resize_dateUpdates_span:
  assumes "find (\<lambda>d. type d = Start) (allDates task) = Some sf"
    and "find (\<lambda>d. type d = Due) (allDates task) = Some df"
    and "preserve_existing (allDates task) = Some m"
    and "newEndMoment = normalizeAllDayEnd newStart newEnd task (Some sf) (Some df)"
    and "format_date newStart \<noteq> format_date newEndMoment"
    and "formatDate Start newStart (format sf)
           (truthy (hasTime sf) \<or>
            ((hour newStart \<noteq> 0 \<or> minute newStart \<noteq> 0) \<and> \<not> isDefaultDropTime newStart)) =
         Some startText"
    and "formatDate Due newEndMoment (format df)
           (truthy (hasTime df) \<or>
            ((hour newEnd \<noteq> 0 \<or> minute newEnd \<noteq> 0) \<and> \<not> isDefaultDropTime newEnd)) =
         Some dueText"
  shows "resize_dateUpdates task newStart newEnd = Some (m(Start \<mapsto> startText, Due \<mapsto> dueText))"
  unfolding resize_dateUpdates_def Let_def assms(1,2,3) assms(4) [symmetric]
  using assms(5,6,7) by simp

lemma trip_resize_line:
  "handleEventResize trip_task drop_start drop_end =
     Some (str ''- [ ] Trip '' @ [55357, 57067] @ str '' 2025-01-11 09:00 '' @ [9203] @
           str '' 2025-01-02 '' @ [55357, 56517] @ str '' 2025-01-12'')"
proof -
  let ?end = "\<lparr>year = 2025, month = 1, day = 12, hour = 23, minute = 59, second = 0, millisecond = 0\<rparr>"
  have "resize_dateUpdates trip_task drop_start drop_end =
      Some ([Start \<mapsto> [55357, 57067] @ str '' 2025-01-10 09:00'',
             Due \<mapsto> [55357, 56517] @ str '' 2025-01-12'',
             Scheduled \<mapsto> [9203] @ str '' 2025-01-02'']
            (Start \<mapsto> [55357, 57067] @ str '' 2025-01-11 09:00'',
             Due \<mapsto> [55357, 56517] @ str '' 2025-01-12''))"
  proof (rule resize_dateUpdates_span [where sf = trip_start and df = trip_due
        and newEndMoment = ?end])
    show "find (\<lambda>d. type d = Start) (allDates trip_task) = Some trip_start"
      "find (\<lambda>d. type d = Due) (allDates trip_task) = Some trip_due"
      by (rule trip_task_find)+
    show "preserve_existing (allDates trip_task) =
       Some [Start \<mapsto> [55357, 57067] @ str '' 2025-01-10 09:00'',
             Due \<mapsto> [55357, 56517] @ str '' 2025-01-12'',
             Scheduled \<mapsto> [9203] @ str '' 2025-01-02'']"
      by (rule trip_preserve_existing)
    show "?end = normalizeAllDayEnd drop_start drop_end trip_task (Some trip_start) (Some trip_due)"
      by (simp add: normalizeAllDayEnd_def isDefaultDropTime_def isAfter_day_def day_number_def
          days_before_year_def days_before_month_def subtract_day_def truthy_def
          trip_start_def trip_due_def trip_task_def drop_start_def drop_end_def clock_rules)
    show "format_date drop_start \<noteq> format_date ?end"
      by (simp add: drop_start_def format_rules)
    show "formatDate Start drop_start (format trip_start)
           (truthy (hasTime trip_start) \<or>
            ((hour drop_start \<noteq> 0 \<or> minute drop_start \<noteq> 0) \<and>
             \<not> isDefaultDropTime drop_start)) =
         Some ([55357, 57067] @ str '' 2025-01-11 09:00'')"
      by (simp add: trip_start_def truthy_def formatDate_def format_rules drop_start_def)
    show "formatDate Due ?end (format trip_due)
           (truthy (hasTime trip_due) \<or>
            ((hour drop_end \<noteq> 0 \<or> minute drop_end \<noteq> 0) \<and>
             \<not> isDefaultDropTime drop_end)) =
         Some ([55357, 56517] @ str '' 2025-01-12'')"
      by (simp add: trip_due_def truthy_def formatDate_def format_rules isDefaultDropTime_def
          drop_end_def)
  qed
  then show ?thesis
    by (simp add: handleEventResize_def trip_selectors truthy_def trip_line_strip
        reconstructLine_def CANONICAL_ORDER_def trimEnd_def is_ws_def str_def)
qed

section \<open>Sorted fields that do not overlap\<close>

text \<open>
  C1.  For every line and every format filter, the result of \<open>extractAllDates\<close> is what the
  walk of the specification keeps of the candidates of the grammars, sorted by \<open>start\<close> with
  the stable sort \<open>sort_key\<close>: a field is kept only if it starts at or after the end of the
  last kept field, and the fields that are kept are the candidates themselves.  The result
  is sorted by ascending \<open>start\<close>, every field ends at or before the start of every later
  field, and every field spans a non-empty part of the line.
\<close>

theorem extractAllDates_sorted_non_overlapping:
  "extractAllDates line formatFilter =
     keep_from None (sort_key start (collect_dates line formatFilter)) \<and>
   sorted (map start (extractAllDates line formatFilter)) \<and>
   sorted_wrt (\<lambda>a b. end' a \<le> start b) (extractAllDates line formatFilter) \<and>
   list_all (span_ok line) (extractAllDates line formatFilter)"
  using extractAllDates_keep_from [of line formatFilter]
    extractAllDates_sorted [of line formatFilter]
    extractAllDates_disjoint [of line formatFilter]
    extractAllDates_span [of _ line formatFilter]
  by (simp add: list_all_iff)

theorem extractAllDates_sorted_non_overlapping_witness:
  "collect_dates overlap_line None = [overlap_dataview, overlap_inner, overlap_after] \<and>
   extractAllDates overlap_line None = [overlap_dataview, overlap_after] \<and>
   start overlap_inner < end' overlap_dataview \<and>
   end' overlap_dataview \<le> start overlap_after \<and>
   extractAllDates inherited_line None = [inherited_field] \<and>
   span_ok inherited_line inherited_field"
  using extractAllDates_sorted_non_overlapping [of overlap_line None]
    extractAllDates_sorted_non_overlapping [of inherited_line None]
  by (simp add: overlap_line_collect overlap_dataview_def overlap_inner_def overlap_after_def
      inherited_line_fields)
section \<open>Stripping the dates\<close>

text \<open>
  C4.  On a line in which \<open>extractAllDates\<close> finds no field, \<open>stripDates\<close> returns the line
  as it is, white space included.  On a line with fields, removing the spans from the last
  field to the first leaves the characters of the line that lie in no span; \<open>stripDates\<close>
  returns the words of that string, its maximal runs of characters that are not white
  space, joined by single spaces: every run of white space has become one space, and there
  is none at either end.
\<close>

theorem stripDates_cases:
  "(extractAllDates line None = [] \<longrightarrow> stripDates line = line) \<and>
   (extractAllDates line None \<noteq> [] \<longrightarrow>
      stripDates line =
        join_words (ws_words (remove_spans (extractAllDates line None) line)))"
  by (simp add: stripDates_def stripDates_remove_spans trim_collapse_ws)

theorem stripDates_cases_witness:
  "stripDates (str ''no  date'') = str ''no  date'' \<and>
   stripDates spaced_line = str ''Call Bob now'' \<and>
   stripDates inherited_line = str ''Task''"
proof -
  have 1: "remove_spans [spaced_due] spaced_line = str ''Call  Bob   now''"
    by (simp add: remove_spans_def in_span_def spaced_line_def spaced_due_def str_def)
  have 2: "join_words (ws_words (str ''Call  Bob   now'')) = str ''Call Bob now''"
    by (simp add: ws_words.simps str_def is_ws_def)
  have 3: "remove_spans [inherited_field] inherited_line = str ''Task ''"
    by (simp add: remove_spans_def in_span_def inherited_line_def inherited_field_def str_def)
  have 4: "join_words (ws_words (str ''Task '')) = str ''Task''"
    by (simp add: ws_words.simps str_def is_ws_def)
  from stripDates_cases [of "str ''no  date''"] stripDates_cases [of spaced_line]
    stripDates_cases [of inherited_line]
  show ?thesis
    by (simp only: no_date_fields spaced_line_fields inherited_line_fields 1 2 3 4) simp
qed

section \<open>The Kanban grammar\<close>

lemma moment_parse_midnight:
  "moment_parse s = Some d \<Longrightarrow>
   valid_moment d \<and> hour d = 0 \<and> minute d = 0 \<and> second d = 0 \<and> millisecond d = 0 \<and> 0 \<le> year d"
  by (auto simp: moment_parse_def valid_moment_def Let_def split: if_splits)

lemma clock_in_range:
  assumes "hh < 24" "mm < 60" "moment_parse s = Some d"
  shows "moment_second 0 (moment_minute mm (moment_hour hh d)) = d\<lparr>hour := hh, minute := mm\<rparr>"
proof -
  from moment_parse_midnight [OF assms(3)]
  have z: "hour d = 0" "minute d = 0" "second d = 0" "millisecond d = 0" by simp_all
  have 1: "moment_hour hh d = d\<lparr>hour := hh\<rparr>"
    using assms(1) z by (simp add: moment_hour_in_range)
  have 2: "moment_minute mm (d\<lparr>hour := hh\<rparr>) = d\<lparr>hour := hh, minute := mm\<rparr>"
    using assms(1,2) z by (simp add: moment_minute_in_range)
  have 3: "moment_second 0 (d\<lparr>hour := hh, minute := mm\<rparr>) = d\<lparr>hour := hh, minute := mm\<rparr>"
    using assms(1,2) z by (simp add: moment_second_in_range)
  show ?thesis by (simp only: 1 2 3)
qed

lemma kanban_field_entry:
  "kanban_field line (time \<noteq> None)
     (fst (case time of None \<Rightarrow> (0, 0) | Some t \<Rightarrow> split_time t))
     (snd (case time of None \<Rightarrow> (0, 0) | Some t \<Rightarrow> split_time t)) (j, 13, ds, g) =
   map_option (\<lambda>d. kanban_entry line j d time) (moment_parse ds)"
  by (cases time) (simp_all add: kanban_field_def kanban_entry_def split: option.splits)

lemma extractKanbanDates_entries:
  assumes "time = map_option (\<lambda>(i, n, t, g). t) (regex_exec KANBAN_TIME_REGEX line 0)"
  shows "set (extractKanbanDates line) =
     {kanban_entry line j d time | j ds d.
        regex_match_at KANBAN_DATE_REGEX (drop j line) = Some (13, ds, None) \<and>
        moment_parse ds = Some d}"
    (is "?L = ?R")
proof -
  let ?tm = "regex_exec KANBAN_TIME_REGEX line 0"
  let ?hm = "case time of None \<Rightarrow> (0, 0) | Some t \<Rightarrow> split_time t"
  have hm: "(case ?tm of None \<Rightarrow> (0, 0) | Some (index, n, t, g2) \<Rightarrow> split_time t) = ?hm"
    by (simp add: assms split: option.splits)
  have ht: "(?tm \<noteq> None) = (time \<noteq> None)" by (simp add: assms)
  have L: "?L = {y. \<exists>x \<in> set (exec_all KANBAN_DATE_REGEX line 0).
      kanban_field line (time \<noteq> None) (fst ?hm) (snd ?hm) x = Some y}"
    by (simp only: extractKanbanDates_def Let_def set_map_filter hm ht)
  show ?thesis
  proof (intro set_eqI iffI)
    fix f assume "f \<in> ?L"
    with L obtain x where x: "x \<in> set (exec_all KANBAN_DATE_REGEX line 0)"
      and f: "kanban_field line (time \<noteq> None) (fst ?hm) (snd ?hm) x = Some f" by auto
    obtain j n ds g where xe: "x = (j, n, ds, g)" by (cases x)
    from exec_all_bounds [of j n ds g KANBAN_DATE_REGEX line 0] x xe
    have m: "regex_match_at KANBAN_DATE_REGEX (drop j line) = Some (n, ds, g)" by blast
    from kanban_date_shape [OF m] have ng: "n = 13" "g = None" by blast+
    from f xe ng kanban_field_entry [of line time j ds None]
    have "map_option (\<lambda>d. kanban_entry line j d time) (moment_parse ds) = Some f"
      by simp
    then obtain d where "moment_parse ds = Some d" "f = kanban_entry line j d time"
      by (cases "moment_parse ds") auto
    with m ng show "f \<in> ?R" by blast
  next
    fix f assume "f \<in> ?R"
    then obtain j ds d where m: "regex_match_at KANBAN_DATE_REGEX (drop j line) = Some (13, ds, None)"
      and d: "moment_parse ds = Some d" and f: "f = kanban_entry line j d time" by blast
    from kanban_date_in_line [OF m] have "j \<le> length line" by simp
    from exec_all_complete [of KANBAN_DATE_REGEX line j "(13, ds, None)" 0, OF _ _ m _ this]
      kanban_date_shape kanban_date_no_overlap
    have "(j, 13, ds, None) \<in> set (exec_all KANBAN_DATE_REGEX line 0)"
      by (metis le0 unicode.simps(3))
    moreover from d f kanban_field_entry [of line time j ds None]
    have "kanban_field line (time \<noteq> None) (fst ?hm) (snd ?hm) (j, 13, ds, None) = Some f"
      by simp
    ultimately show "f \<in> ?L" unfolding L by blast
  qed
qed

lemma kanban_line_time:
  "regex_exec KANBAN_TIME_REGEX kanban_line 0 = Some (14, 9, str ''09:00'', None)"
  by (simp add: kanban_line_def eval_rules)

lemma kanban_line_date:
  "regex_match_at KANBAN_DATE_REGEX (drop 0 kanban_line) = Some (13, str ''2025-03-01'', None)"
  by (simp add: kanban_line_def eval_rules)

lemma kanban_plain_line_time: "regex_exec KANBAN_TIME_REGEX kanban_plain_line 0 = None"
  by (simp add: kanban_plain_line_def eval_rules)

lemma kanban_plain_line_date:
  "regex_match_at KANBAN_DATE_REGEX (drop 9 kanban_plain_line) =
      Some (13, str ''2025-03-01'', None)"
  by (simp add: kanban_plain_line_def eval_rules)


lemma kanban_line_entry:
  "kanban_entry kanban_line 0
     \<lparr>year = 2025, month = 3, day = 1, hour = 0, minute = 0, second = 0, millisecond = 0\<rparr>
     (Some (str ''09:00'')) = kanban_due"
proof -
  have st: "split_time (str ''09:00'') = (9, 0)"
    by (simp add: split_time_def Number_def str_def)
  have mp: "moment_parse (str ''2025-03-01'') =
      Some \<lparr>year = 2025, month = 3, day = 1, hour = 0, minute = 0, second = 0, millisecond = 0\<rparr>"
    by (simp add: moment_parse_def Number_def str_def daysInMonth_def)
  have "moment_second 0 (moment_minute 0 (moment_hour 9
      \<lparr>year = 2025, month = 3, day = 1, hour = 0, minute = 0, second = 0, millisecond = 0\<rparr>)) =
      \<lparr>year = 2025, month = 3, day = 1, hour = 0, minute = 0, second = 0, millisecond = 0\<rparr>
      \<lparr>hour := 9, minute := 0\<rparr>"
    by (rule clock_in_range [OF _ _ mp]) simp_all
  then have "kanban_entry kanban_line 0
     \<lparr>year = 2025, month = 3, day = 1, hour = 0, minute = 0, second = 0, millisecond = 0\<rparr>
     (Some (str ''09:00'')) =
     \<lparr>type = Due,
      date = \<lparr>year = 2025, month = 3, day = 1, hour = 9, minute = 0, second = 0,
               millisecond = 0\<rparr>,
      raw = take 13 (drop 0 kanban_line), start = 0, end' = 0 + 13, format = F_kanban,
      hasTime = Some True\<rparr>"
    by (simp add: kanban_entry_def st)
  then show ?thesis
    by (simp add: kanban_due_def kanban_line_def str_def)
qed

lemma kanban_plain_line_entry:
  "kanban_entry kanban_plain_line 9
     \<lparr>year = 2025, month = 3, day = 1, hour = 0, minute = 0, second = 0, millisecond = 0\<rparr>
     None = kanban_plain_due"
  by (simp add: kanban_entry_def kanban_plain_due_def kanban_plain_line_def str_def)

text \<open>
  C7.  The Kanban grammar takes the first match of the time token, if there is one.  Its
  fields are the date tokens of the line with a valid date, each of type \<open>Due\<close>: without a
  time token the date at midnight and no time; with a time token \<open>hasTime\<close> true and the
  hours and minutes of the token set on the date.  When the hours are below 24 and the
  minutes below 60 the field has that clock time on the day of its token.
\<close>

theorem kanban_time_applies_to_every_date:
  "(regex_exec KANBAN_TIME_REGEX line 0 = None \<longrightarrow>
      (\<forall>k \<le> length line. regex_match_at KANBAN_TIME_REGEX (drop k line) = None) \<and>
      set (extractKanbanDates line) =
        {kanban_entry line j d None | j ds d.
           regex_match_at KANBAN_DATE_REGEX (drop j line) = Some (13, ds, None) \<and>
           moment_parse ds = Some d}) \<and>
   (\<forall>i n t g. regex_exec KANBAN_TIME_REGEX line 0 = Some (i, n, t, g) \<longrightarrow>
      regex_match_at KANBAN_TIME_REGEX (drop i line) = Some (n, t, g) \<and>
      (\<forall>k < i. regex_match_at KANBAN_TIME_REGEX (drop k line) = None) \<and>
      set (extractKanbanDates line) =
        {kanban_entry line j d (Some t) | j ds d.
           regex_match_at KANBAN_DATE_REGEX (drop j line) = Some (13, ds, None) \<and>
           moment_parse ds = Some d}) \<and>
   (\<forall>j ds d t. moment_parse ds = Some d \<longrightarrow>
      type (kanban_entry line j d None) = Due \<and>
      type (kanban_entry line j d (Some t)) = Due \<and>
      hasTime (kanban_entry line j d None) = Some False \<and>
      date (kanban_entry line j d None) = d \<and>
      hasTime (kanban_entry line j d (Some t)) = Some True \<and>
      (fst (split_time t) < 24 \<and> snd (split_time t) < 60 \<longrightarrow>
         date (kanban_entry line j d (Some t)) =
           d\<lparr>hour := fst (split_time t), minute := snd (split_time t)\<rparr>))"
  (is "?A \<and> ?B \<and> ?C")
proof -
  have A: ?A
  proof
    assume none: "regex_exec KANBAN_TIME_REGEX line 0 = None"
    have 1: "\<forall>k \<le> length line. regex_match_at KANBAN_TIME_REGEX (drop k line) = None"
      using regex_exec_NoneD [OF _ none] by (simp del: regex_match_at.simps)
    have 2: "set (extractKanbanDates line) =
        {kanban_entry line j d None | j ds d.
           regex_match_at KANBAN_DATE_REGEX (drop j line) = Some (13, ds, None) \<and>
           moment_parse ds = Some d}"
      by (rule extractKanbanDates_entries) (simp add: none)
    from 1 2 show "(\<forall>k \<le> length line. regex_match_at KANBAN_TIME_REGEX (drop k line) = None) \<and>
      set (extractKanbanDates line) =
        {kanban_entry line j d None | j ds d.
           regex_match_at KANBAN_DATE_REGEX (drop j line) = Some (13, ds, None) \<and>
           moment_parse ds = Some d}"
      by (rule conjI)
  qed
  have B: ?B
  proof (intro allI, rule impI)
    fix i n t g
    assume some: "regex_exec KANBAN_TIME_REGEX line 0 = Some (i, n, t, g)"
    from regex_exec_SomeD [OF some]
    have 1: "regex_match_at KANBAN_TIME_REGEX (drop i line) = Some (n, t, g)" by blast
    have 2: "\<forall>k < i. regex_match_at KANBAN_TIME_REGEX (drop k line) = None"
      using regex_exec_first [OF _ some] by (simp del: regex_match_at.simps)
    have 3: "set (extractKanbanDates line) =
        {kanban_entry line j d (Some t) | j ds d.
           regex_match_at KANBAN_DATE_REGEX (drop j line) = Some (13, ds, None) \<and>
           moment_parse ds = Some d}"
      by (rule extractKanbanDates_entries) (simp add: some)
    from 1 2 3 show "regex_match_at KANBAN_TIME_REGEX (drop i line) = Some (n, t, g) \<and>
      (\<forall>k < i. regex_match_at KANBAN_TIME_REGEX (drop k line) = None) \<and>
      set (extractKanbanDates line) =
        {kanban_entry line j d (Some t) | j ds d.
           regex_match_at KANBAN_DATE_REGEX (drop j line) = Some (13, ds, None) \<and>
           moment_parse ds = Some d}"
      by (intro conjI)
  qed
  have C: ?C
  proof (intro allI, rule impI)
    fix j ds d t
    assume d: "moment_parse ds = Some d"
    have "fst (split_time t) < 24 \<and> snd (split_time t) < 60 \<longrightarrow>
         date (kanban_entry line j d (Some t)) =
           d\<lparr>hour := fst (split_time t), minute := snd (split_time t)\<rparr>"
      using clock_in_range [OF _ _ d, of "fst (split_time t)" "snd (split_time t)"]
      by (simp add: kanban_entry_def)
    then show "type (kanban_entry line j d None) = Due \<and>
      type (kanban_entry line j d (Some t)) = Due \<and>
      hasTime (kanban_entry line j d None) = Some False \<and>
      date (kanban_entry line j d None) = d \<and>
      hasTime (kanban_entry line j d (Some t)) = Some True \<and>
      (fst (split_time t) < 24 \<and> snd (split_time t) < 60 \<longrightarrow>
         date (kanban_entry line j d (Some t)) =
           d\<lparr>hour := fst (split_time t), minute := snd (split_time t)\<rparr>)"
      by (simp add: kanban_entry_def)
  qed
  from A B C show ?thesis by (intro conjI)
qed

theorem kanban_time_applies_to_every_date_witness:
  "regex_exec KANBAN_TIME_REGEX kanban_line 0 = Some (14, 9, str ''09:00'', None) \<and>
   kanban_due \<in> set (extractKanbanDates kanban_line) \<and>
   hasTime kanban_due = Some True \<and> hour (date kanban_due) = 9 \<and> minute (date kanban_due) = 0 \<and>
   regex_exec KANBAN_TIME_REGEX kanban_plain_line 0 = None \<and>
   kanban_plain_due \<in> set (extractKanbanDates kanban_plain_line) \<and>
   hasTime kanban_plain_due = Some False"
proof -
  let ?d = "\<lparr>year = 2025, month = 3, day = 1, hour = 0, minute = 0, second = 0, millisecond = 0\<rparr>"
  have mp: "moment_parse (str ''2025-03-01'') = Some ?d"
    by (simp add: moment_parse_def Number_def str_def daysInMonth_def)
  note th = kanban_time_applies_to_every_date [of kanban_line]
  note tp = kanban_time_applies_to_every_date [of kanban_plain_line]
  from th [THEN conjunct2, THEN conjunct1, rule_format, OF kanban_line_time]
  have s1: "set (extractKanbanDates kanban_line) =
        {kanban_entry kanban_line j d (Some (str ''09:00'')) | j ds d.
           regex_match_at KANBAN_DATE_REGEX (drop j kanban_line) = Some (13, ds, None) \<and>
           moment_parse ds = Some d}"
    by (rule conjunct2 [THEN conjunct2])
  have "kanban_entry kanban_line 0 ?d (Some (str ''09:00'')) \<in>
        {kanban_entry kanban_line j d (Some (str ''09:00'')) | j ds d.
           regex_match_at KANBAN_DATE_REGEX (drop j kanban_line) = Some (13, ds, None) \<and>
           moment_parse ds = Some d}"
    by (rule CollectI, intro exI conjI, rule refl, rule kanban_line_date, rule mp)
  then have 1: "kanban_due \<in> set (extractKanbanDates kanban_line)"
    by (simp only: s1 kanban_line_entry)
  from tp [THEN conjunct1, rule_format, OF kanban_plain_line_time]
  have s2: "set (extractKanbanDates kanban_plain_line) =
        {kanban_entry kanban_plain_line j d None | j ds d.
           regex_match_at KANBAN_DATE_REGEX (drop j kanban_plain_line) = Some (13, ds, None) \<and>
           moment_parse ds = Some d}"
    by (rule conjunct2)
  have "kanban_entry kanban_plain_line 9 ?d None \<in>
        {kanban_entry kanban_plain_line j d None | j ds d.
           regex_match_at KANBAN_DATE_REGEX (drop j kanban_plain_line) = Some (13, ds, None) \<and>
           moment_parse ds = Some d}"
    by (rule CollectI, intro exI conjI, rule refl, rule kanban_plain_line_date, rule mp)
  then have 2: "kanban_plain_due \<in> set (extractKanbanDates kanban_plain_line)"
    by (simp only: s2 kanban_plain_line_entry)
  have 3: "hasTime kanban_due = Some True" "hour (date kanban_due) = 9"
    "minute (date kanban_due) = 0" "hasTime kanban_plain_due = Some False"
    by (simp_all add: kanban_due_def kanban_plain_due_def)
  from kanban_line_time 1 3 kanban_plain_line_time 2 show ?thesis by (intro conjI)
qed

text \<open>
  The time token takes any two digits as hours and as minutes, and the setters of the
  library carry hours and minutes beyond the day over: with the token 25:00 the field of
  the date 2025-03-01 is 2025-03-02 01:00, not the clock time of the token.
\<close>

theorem kanban_time_beyond_day_counterexample:
  "regex_exec KANBAN_TIME_REGEX kanban_late_line 0 = Some (14, 9, str ''25:00'', None) \<and>
   split_time (str ''25:00'') = (25, 0) \<and>
   extractKanbanDates kanban_late_line =
     [\<lparr>type = Due,
       date = \<lparr>year = 2025, month = 3, day = 2, hour = 1, minute = 0, second = 0,
                millisecond = 0\<rparr>,
       raw = [64] @ str ''{2025-03-01}'', start = 0, end' = 13, format = F_kanban,
       hasTime = Some True\<rparr>] \<and>
   format_time
     \<lparr>year = 2025, month = 3, day = 2, hour = 1, minute = 0, second = 0, millisecond = 0\<rparr> =
     str ''01:00''"
proof -
  have tm: "regex_exec KANBAN_TIME_REGEX kanban_late_line 0 = Some (14, 9, str ''25:00'', None)"
    by (simp add: kanban_late_line_def eval_rules)
  have st: "split_time (str ''25:00'') = (25, 0)"
    by (simp add: split_time_def Number_def str_def)
  have ds: "exec_all KANBAN_DATE_REGEX kanban_late_line 0 = [(0, 13, str ''2025-03-01'', None)]"
    by (simp add: kanban_late_line_def eval_rules)
  have mp: "moment_parse (str ''2025-03-01'') =
      Some \<lparr>year = 2025, month = 3, day = 1, hour = 0, minute = 0, second = 0, millisecond = 0\<rparr>"
    by (simp add: moment_parse_def Number_def str_def daysInMonth_def)
  have cl: "moment_second 0 (moment_minute 0 (moment_hour 25
      \<lparr>year = 2025, month = 3, day = 1, hour = 0, minute = 0, second = 0, millisecond = 0\<rparr>)) =
      \<lparr>year = 2025, month = 3, day = 2, hour = 1, minute = 0, second = 0, millisecond = 0\<rparr>"
    by (simp add: clock_rules)
  have raw: "take 13 (drop 0 kanban_late_line) = [64] @ str ''{2025-03-01}''"
    by (simp add: kanban_late_line_def str_def)
  have ft: "format_time
     \<lparr>year = 2025, month = 3, day = 2, hour = 1, minute = 0, second = 0, millisecond = 0\<rparr> =
     str ''01:00''"
    by (simp add: format_rules)
  have "extractKanbanDates kanban_late_line =
     [\<lparr>type = Due,
       date = \<lparr>year = 2025, month = 3, day = 2, hour = 1, minute = 0, second = 0,
                millisecond = 0\<rparr>,
       raw = [64] @ str ''{2025-03-01}'', start = 0, end' = 13, format = F_kanban,
       hasTime = Some True\<rparr>]"
    by (simp add: extractKanbanDates_def tm st ds List.map_filter_def kanban_field_def mp
        cl [simplified] raw [simplified])
  with tm st ft show ?thesis by (intro conjI)
qed

section \<open>Line reconstruction\<close>

lemma reconstruct_foldl:
  "foldl (\<lambda>result ty.
            case m ty of
              None \<Rightarrow> result
            | Some formatted \<Rightarrow> if formatted \<noteq> [] then result @ [32] @ formatted else result)
     acc order =
   acc @ concat (map (\<lambda>s. if s = [] then [] else 32 # s) (List.map_filter m order))"
  by (induction order arbitrary: acc) (auto simp: List.map_filter_def split: option.splits)

text \<open>
  C5.  For every base line and every mapping from date field types to formatted strings,
  \<open>reconstructLine\<close> returns the base line without its trailing white space, followed by
  the strings of the types present in the mapping, in the fixed order Start, Scheduled,
  Due, Created, Done, Cancelled, each non-empty string after one space.  Types absent from
  the mapping contribute nothing.  When no string of the mapping is empty, as for every
  result of \<open>formatDate\<close>, each present type contributes a space and its string.
\<close>

theorem reconstructLine_canonical_order:
  "reconstructLine baseLine dateUpdates =
     trimEnd baseLine @
     concat (map (\<lambda>s. if s = [] then [] else 32 # s)
               (List.map_filter dateUpdates [Start, Scheduled, Due, Created, Done, Cancelled])) \<and>
   ((\<forall>ty s. dateUpdates ty = Some s \<longrightarrow> s \<noteq> []) \<longrightarrow>
      reconstructLine baseLine dateUpdates =
        trimEnd baseLine @
        concat (map (\<lambda>ty. 32 # the (dateUpdates ty))
                  (filter (\<lambda>ty. ty \<in> dom dateUpdates)
                     [Start, Scheduled, Due, Created, Done, Cancelled])))"
proof -
  have a: "reconstructLine baseLine dateUpdates =
     trimEnd baseLine @
     concat (map (\<lambda>s. if s = [] then [] else 32 # s)
               (List.map_filter dateUpdates [Start, Scheduled, Due, Created, Done, Cancelled]))"
    unfolding reconstructLine_def CANONICAL_ORDER_def by (rule reconstruct_foldl)
  have b: "concat (map (\<lambda>s. if s = [] then [] else 32 # s) (List.map_filter dateUpdates order)) =
           concat (map (\<lambda>ty. 32 # the (dateUpdates ty)) (filter (\<lambda>ty. ty \<in> dom dateUpdates) order))"
    if "\<forall>ty s. dateUpdates ty = Some s \<longrightarrow> s \<noteq> []" for order
    using that by (induction order) (auto simp: List.map_filter_def)
  show ?thesis
  proof (intro conjI impI)
    show "reconstructLine baseLine dateUpdates =
     trimEnd baseLine @
     concat (map (\<lambda>s. if s = [] then [] else 32 # s)
               (List.map_filter dateUpdates [Start, Scheduled, Due, Created, Done, Cancelled]))"
      by (rule a)
  next
    assume h: "\<forall>ty s. dateUpdates ty = Some s \<longrightarrow> s \<noteq> []"
    show "reconstructLine baseLine dateUpdates =
        trimEnd baseLine @
        concat (map (\<lambda>ty. 32 # the (dateUpdates ty))
                  (filter (\<lambda>ty. ty \<in> dom dateUpdates)
                     [Start, Scheduled, Due, Created, Done, Cancelled]))"
      by (simp only: a b [OF h])
  qed
qed

theorem reconstructLine_canonical_order_witness:
  "reconstructLine (str ''- [ ] Ship  '')
     [Due \<mapsto> str ''@ 2025-12-01'', Start \<mapsto> str ''@ 2025-11-22''] =
   str ''- [ ] Ship @ 2025-11-22 @ 2025-12-01''"
  using reconstructLine_canonical_order
    [of "str ''- [ ] Ship  ''" "[Due \<mapsto> str ''@ 2025-12-01'', Start \<mapsto> str ''@ 2025-11-22'']"]
  by (simp add: List.map_filter_def str_def trimEnd_def is_ws_def)
section \<open>Task-event projection\<close>

lemma nat_digits_2: "n < 10 \<Longrightarrow> nat_digits n = [48 + n]"
  by (simp add: nat_digits.simps)

lemma format_time_23_59: "hour m = 23 \<Longrightarrow> minute m = 59 \<Longrightarrow> format_time m = str ''23:59''"
  by (simp add: format_time_def zeroFill_def nat_digits.simps [of 23] nat_digits.simps [of 59]
      nat_digits.simps [of 2] nat_digits.simps [of 5] str_def)

lemma end_of_day:
  assumes "valid_moment m"
  shows "format_date_time (moment_minute 59 (moment_hour 23 m)) = format_date m @ str '' 23:59''"
proof -
  from assms have v: "minute m < 60" "second m < 60" "millisecond m < 1000"
    by (simp_all add: valid_moment_def)
  have h: "moment_hour 23 m = m\<lparr>hour := 23\<rparr>"
    by (rule moment_hour_in_range) (use v in simp_all)
  have mi: "moment_minute 59 (m\<lparr>hour := 23\<rparr>) = m\<lparr>hour := 23, minute := 59\<rparr>"
    by (rule moment_minute_in_range) (use v in simp_all)
  have "format_time (m\<lparr>hour := 23, minute := 59\<rparr>) = str ''23:59''"
    by (rule format_time_23_59) simp_all
  then show ?thesis
    unfolding h mi by (simp add: format_date_time_def format_date_def str_def)
qed

lemma time_ms_add_minutes:
  "valid_moment m \<Longrightarrow> time_ms (add_minutes n m) = time_ms m + n * 60000"
  by (simp add: add_minutes_def time_ms_add_milliseconds)

text \<open>
  C3.  The start and end strings of the calendar event of a task follow the case analysis
  of the specification.  A Kanban task with a time starts at its primary date-time and
  ends 30 minutes later.  Otherwise, with both a Start and a Due field, start and end come
  from these fields: as date-times when either has a time, the end being the Due date at
  23:59 when Due has no time and the Due date-time as parsed when it has one, and as plain
  dates when neither has a time.  With only one of Start and Due, the end is that date, or
  that date-time plus 30 minutes when the field has a time.  With neither, the end is the
  primary date-time plus 30 minutes when the primary field has a time, and otherwise start
  and end are the primary date.  Adding 30 minutes moves a moment by 1800000 milliseconds.
\<close>

theorem event_times_cases:
  "(truthy (isKanban task) \<and> truthy (task_hasTime task) \<longrightarrow>
      event_times task =
        (format_date_time (task_date task),
         format_date_time (add_minutes 30 (task_date task)))) \<and>
   (\<not> (truthy (isKanban task) \<and> truthy (task_hasTime task)) \<longrightarrow>
      (\<forall>s d. find (\<lambda>f. type f = Start) (allDates task) = Some s \<and>
             find (\<lambda>f. type f = Due) (allDates task) = Some d \<longrightarrow>
         (truthy (hasTime d) \<longrightarrow>
            event_times task = (format_date_time (date s), format_date_time (date d))) \<and>
         (truthy (hasTime s) \<and> \<not> truthy (hasTime d) \<and> valid_moment (date d) \<longrightarrow>
            event_times task =
              (format_date_time (date s), format_date (date d) @ str '' 23:59'')) \<and>
         (\<not> truthy (hasTime s) \<and> \<not> truthy (hasTime d) \<longrightarrow>
            event_times task = (format_date (date s), format_date (date d)))) \<and>
      (\<forall>f. (find (\<lambda>f. type f = Start) (allDates task) = Some f \<and>
            find (\<lambda>f. type f = Due) (allDates task) = None) \<or>
           (find (\<lambda>f. type f = Start) (allDates task) = None \<and>
            find (\<lambda>f. type f = Due) (allDates task) = Some f) \<longrightarrow>
         event_times task =
           (if truthy (hasTime f)
            then (format_date_time (date f), format_date_time (add_minutes 30 (date f)))
            else (format_date (date f), format_date (date f)))) \<and>
      (find (\<lambda>f. type f = Start) (allDates task) = None \<and>
       find (\<lambda>f. type f = Due) (allDates task) = None \<longrightarrow>
         event_times task =
           (if truthy (task_hasTime task)
            then (format_date_time (task_date task),
                  format_date_time (add_minutes 30 (task_date task)))
            else (format_date (task_date task), format_date (task_date task))))) \<and>
   (\<forall>m. valid_moment m \<longrightarrow> time_ms (add_minutes 30 m) = time_ms m + 30 * 60000)"
proof (intro conjI impI allI)
  fix m
  assume "valid_moment m"
  then show "time_ms (add_minutes 30 m) = time_ms m + 30 * 60000"
    by (rule time_ms_add_minutes)
qed (auto simp: event_times_def end_of_day)

theorem event_times_cases_witness:
  "event_times trip_task = (str ''2025-01-10 09:00'', str ''2025-01-12 23:59'') \<and>
   event_times kanban_task = (str ''2025-03-01 09:00'', str ''2025-03-01 09:30'')"
  using event_times_cases [of trip_task] event_times_cases [of kanban_task]
  by (simp add: trip_task_find trip_selectors trip_formats kanban_task_selectors
      kanban_task_formats truthy_def str_def)
section \<open>The primary date\<close>





section \<open>The span of a task after a drop\<close>

text \<open>
  C9.  On a drop of a task with a start field and a due field, \<open>handleEventDrop\<close> computes
  the old due date plus the milliseconds between the new start and the old start, as its
  comments announce ("Preserve original duration: shift due by the same delta as start",
  "rather than relying on calendar's newEnd").  What it writes is something else.  The trip
  runs from 2025-01-10 09:00 to 2025-01-12, which is 140400000 ms.  Dropped on 2025-01-15
  at midnight, the shifted due date is 2025-01-16 15:00; the start gets its old time 09:00
  back, the due date is written without a time, and the line runs from 2025-01-15 09:00 to
  2025-01-16, which is 54000000 ms.  Dropped on 2025-01-11 10:00, the due date that is
  written depends on the reported end: 2025-01-13 for an end at midnight, 2025-01-13 01:00
  for an end at 15:45.
\<close>

theorem drop_changes_span_and_reads_reported_end:
  "parse_task DEFAULT_PRIORITY None (str ''Default'') 7 trip_line = Some trip_task \<and>
   drop_newEndMoment trip_task allday_drop_start allday_drop_end =
     add_milliseconds (diff allday_drop_start (date trip_start)) (date trip_due) \<and>
   drop_newEndMoment trip_task allday_drop_start allday_drop_end =
     \<lparr>year = 2025, month = 1, day = 16, hour = 15, minute = 0, second = 0, millisecond = 0\<rparr> \<and>
   diff (date trip_due) (date trip_start) = 140400000 \<and>
   handleEventDrop trip_task trip_line allday_drop_start allday_drop_end =
     Some (str ''- [ ] Trip '' @ [55357, 57067] @ str '' 2025-01-15 09:00 '' @ [9203] @
           str '' 2025-01-02 '' @ [55357, 56517] @ str '' 2025-01-16'') \<and>
   diff \<lparr>year = 2025, month = 1, day = 16, hour = 0, minute = 0, second = 0, millisecond = 0\<rparr>
        \<lparr>year = 2025, month = 1, day = 15, hour = 9, minute = 0, second = 0, millisecond = 0\<rparr> =
     54000000 \<and>
   handleEventDrop trip_task trip_line hour_drop_start drop_end =
     Some (str ''- [ ] Trip '' @ [55357, 57067] @ str '' 2025-01-11 10:00 '' @ [9203] @
           str '' 2025-01-02 '' @ [55357, 56517] @ str '' 2025-01-13'') \<and>
   handleEventDrop trip_task trip_line hour_drop_start timed_drop_end =
     Some (str ''- [ ] Trip '' @ [55357, 57067] @ str '' 2025-01-11 10:00 '' @ [9203] @
           str '' 2025-01-02 '' @ [55357, 56517] @ str '' 2025-01-13 01:00'')"
proof -
  have n: "drop_newEndMoment trip_task allday_drop_start allday_drop_end =
     add_milliseconds (diff allday_drop_start (date trip_start)) (date trip_due)"
    by (simp add: drop_newEndMoment_def trip_task_find)
  have v: "add_milliseconds (diff allday_drop_start (date trip_start)) (date trip_due) =
     \<lparr>year = 2025, month = 1, day = 16, hour = 15, minute = 0, second = 0, millisecond = 0\<rparr>"
    by (simp add: diff_def time_ms_def day_number_def days_before_year_def
        days_before_month_def trip_start_def trip_due_def allday_drop_start_def clock_rules
        funpow_numeral_step)
  have d1: "diff (date trip_due) (date trip_start) = 140400000"
    by (simp add: diff_def time_ms_def day_number_def days_before_year_def
        days_before_month_def trip_start_def trip_due_def ms_of_day_def)
  have d2: "diff \<lparr>year = 2025, month = 1, day = 16, hour = 0, minute = 0, second = 0, millisecond = 0\<rparr>
        \<lparr>year = 2025, month = 1, day = 15, hour = 9, minute = 0, second = 0, millisecond = 0\<rparr> =
     54000000"
    by (simp add: diff_def time_ms_def day_number_def days_before_year_def
        days_before_month_def ms_of_day_def)
  show ?thesis
    by (simp only: trip_task_parsed n v d1 d2 trip_allday_drop_line trip_hour_drop_line
        trip_hour_drop_timed_line simp_thms)
qed

theorem drop_changes_span_and_reads_reported_end_witness:
  "handleEventDrop trip_task trip_line hour_drop_start drop_end \<noteq>
   handleEventDrop trip_task trip_line hour_drop_start timed_drop_end"
  using drop_changes_span_and_reads_reported_end by (simp add: str_def)

section \<open>The fields that a drop or a resize keeps\<close>

text \<open>
  C10.  \<open>handleEventDrop\<close> and \<open>handleEventResize\<close> begin with the loop "Preserve all
  existing dates first", which sets an entry of the map for each field of the task.  The
  map has one entry for each type, so of two fields of one type the second overwrites the
  first.  The trip has two scheduled dates; after a drop and after a resize the line has
  lost the first, 2025-01-01.
\<close>

theorem reschedule_loses_earlier_field:
  "parse_task DEFAULT_PRIORITY None (str ''Default'') 7 trip_line = Some trip_task \<and>
   allDates trip_task = [trip_start, trip_due, trip_scheduled1, trip_scheduled2] \<and>
   raw trip_scheduled1 = [9203] @ str '' 2025-01-01'' \<and>
   formatDate (type trip_scheduled1) (date trip_scheduled1) (format trip_scheduled1)
     (truthy (hasTime trip_scheduled1)) = Some ([9203] @ str '' 2025-01-01'') \<and>
   handleEventDrop trip_task trip_line drop_start drop_end =
     Some (str ''- [ ] Trip '' @ [55357, 57067] @ str '' 2025-01-11 09:00 '' @ [9203] @
           str '' 2025-01-02 '' @ [55357, 56517] @ str '' 2025-01-13'') \<and>
   handleEventResize trip_task drop_start drop_end =
     Some (str ''- [ ] Trip '' @ [55357, 57067] @ str '' 2025-01-11 09:00 '' @ [9203] @
           str '' 2025-01-02 '' @ [55357, 56517] @ str '' 2025-01-12'') \<and>
   \<not> string_includes
       (str ''- [ ] Trip '' @ [55357, 57067] @ str '' 2025-01-11 09:00 '' @ [9203] @
        str '' 2025-01-02 '' @ [55357, 56517] @ str '' 2025-01-13'')
       ([9203] @ str '' 2025-01-01'') \<and>
   \<not> string_includes
       (str ''- [ ] Trip '' @ [55357, 57067] @ str '' 2025-01-11 09:00 '' @ [9203] @
        str '' 2025-01-02 '' @ [55357, 56517] @ str '' 2025-01-12'')
       ([9203] @ str '' 2025-01-01'')"
proof -
  have a: "allDates trip_task = [trip_start, trip_due, trip_scheduled1, trip_scheduled2]"
    by (simp add: trip_task_def)
  have r: "raw trip_scheduled1 = [9203] @ str '' 2025-01-01''"
    by (simp add: trip_scheduled1_def)
  have f: "formatDate (type trip_scheduled1) (date trip_scheduled1) (format trip_scheduled1)
     (truthy (hasTime trip_scheduled1)) = Some ([9203] @ str '' 2025-01-01'')"
    by (simp add: trip_scheduled1_def formatDate_def truthy_def format_rules)
  have i: "\<not> string_includes
       (str ''- [ ] Trip '' @ [55357, 57067] @ str '' 2025-01-11 09:00 '' @ [9203] @
        str '' 2025-01-02 '' @ [55357, 56517] @ str '' 2025-01-13'')
       ([9203] @ str '' 2025-01-01'')"
    "\<not> string_includes
       (str ''- [ ] Trip '' @ [55357, 57067] @ str '' 2025-01-11 09:00 '' @ [9203] @
        str '' 2025-01-02 '' @ [55357, 56517] @ str '' 2025-01-12'')
       ([9203] @ str '' 2025-01-01'')"
    by (simp_all add: string_includes_def indexOf_def str_def)
  show ?thesis
    by (simp only: trip_task_parsed a r f trip_drop_line trip_resize_line i simp_thms)
qed

theorem reschedule_loses_earlier_field_witness:
  "handleEventDrop trip_task trip_line drop_start drop_end \<noteq> None \<and>
   handleEventResize trip_task drop_start drop_end \<noteq> None \<and>
   trip_scheduled1 \<in> set (allDates trip_task)"
  using reschedule_loses_earlier_field by simp

section \<open>Times in Dataview values\<close>

text \<open>
  C8.  The claim is that a Dataview value such as \<open>[start:: 2025-01-15T14:30]\<close> reaches
  the date constructor whole, so that the time is part of the date of the field.  The code
  passes only the ten characters of the date: \<open>formatDate\<close> writes the time 14:30 into
  the line, and \<open>extractAllDates\<close> reads the line back as a field at 00:00 without a
  time.
\<close>

theorem dataview_time_is_dropped:
  "formatDate Start dataview_time_moment F_dataview_bracket True = Some dataview_time_line \<and>
   extractAllDates dataview_time_line None =
     [\<lparr>type = Start,
       date = \<lparr>year = 2025, month = 1, day = 15, hour = 0, minute = 0, second = 0,
                millisecond = 0\<rparr>,
       raw = dataview_time_line, start = 0, end' = 26, format = F_dataview_bracket,
       hasTime = None\<rparr>] \<and>
   date (hd (extractAllDates dataview_time_line None)) \<noteq> dataview_time_moment"
proof -
  have f: "formatDate Start dataview_time_moment F_dataview_bracket True = Some dataview_time_line"
    by (simp add: formatDate_def dataview_time_moment_def dataview_time_line_def format_rules)
  have e: "extractAllDates dataview_time_line None =
     [\<lparr>type = Start,
       date = \<lparr>year = 2025, month = 1, day = 15, hour = 0, minute = 0, second = 0,
                millisecond = 0\<rparr>,
       raw = dataview_time_line, start = 0, end' = 26, format = F_dataview_bracket,
       hasTime = None\<rparr>]"
    by (simp add: extractAllDates_def collect_dates_def dataview_time_line_dataview
        dataview_time_line_others push_non_overlapping_def)
  show ?thesis
    unfolding e f by (simp add: dataview_time_moment_def)
qed

theorem dataview_time_is_dropped_witness:
  "hour (date (hd (extractAllDates dataview_time_line None))) = 0 \<and>
   hour dataview_time_moment = 14 \<and>
   hasTime (hd (extractAllDates dataview_time_line None)) = None"
  using dataview_time_is_dropped by (simp add: dataview_time_moment_def)

end
